theory Spec2Isabelle
  imports Main "HOL-Library.Word"
begin

section \<open>Detector geometry\<close>

text \<open>
  The two enumerations over which \<open>WaveformReader::next\<close> iterates with the literal
  lists \<open>{kTopRing, kMiddleRing, kBottomRing}\<close> and \<open>{kHorizontal, kVertical}\<close>.
\<close>

datatype AnitaRing = kTopRing | kMiddleRing | kBottomRing

datatype AnitaPol = kHorizontal | kVertical

text \<open>
  Modelled from the spec: the integer values of the enumerators, which the source uses
  directly as buffer indices in \<open>r(event, phi, ring, pol, sample)\<close>. They are declared
  in a header of the external ANITA library that is not part of the repository; the spec
  fixes the ring axis as top, middle, bottom at indices 0, 1, 2 and the polarisation axis
  as horizontal, vertical at indices 0, 1.
\<close>

fun ring_index :: "AnitaRing \<Rightarrow> nat" where
  "ring_index kTopRing = 0"
| "ring_index kMiddleRing = 1"
| "ring_index kBottomRing = 2"

fun pol_index :: "AnitaPol \<Rightarrow> nat" where
  "pol_index kHorizontal = 0"
| "pol_index kVertical = 1"

section \<open>The output buffer\<close>

text \<open>
  \<open>NumpyArray\<close> as seen through \<open>mutable_unchecked<5>()\<close>: five extents and the
  elements, addressed by an index tuple (event, phi, ring, pol, sample). The element type
  \<open>'f\<close> stands for \<open>float\<close>.
\<close>

type_synonym index5 = "nat \<times> nat \<times> nat \<times> nat \<times> nat"

record 'f NumpyArray =
  shape0 :: nat
  shape1 :: nat
  shape2 :: nat
  shape3 :: nat
  shape4 :: nat
  elems :: "index5 \<Rightarrow> 'f"

text \<open>
  The accessor does no bounds checking. An index tuple inside the declared shape addresses
  its element; for a tuple outside the shape C++ leaves the access undefined, which the
  model records as the outcome \<open>OutOfShape\<close> instead of inventing a result.
\<close>

datatype fault = OutOfShape

definition in_shape :: "'f NumpyArray \<Rightarrow> index5 \<Rightarrow> bool" where
  "in_shape r idx =
     (case idx of (event, phi, ring, pol, sample) \<Rightarrow>
        event < shape0 r \<and> phi < shape1 r \<and> ring < shape2 r \<and> pol < shape3 r
        \<and> sample < shape4 r)"

definition r_assign :: "'f NumpyArray \<Rightarrow> index5 \<Rightarrow> 'f \<Rightarrow> fault + 'f NumpyArray" where
  "r_assign r idx v =
     (if in_shape r idx then Inr (r\<lparr>elems := (elems r)(idx := v)\<rparr>) else Inl OutOfShape)"

section \<open>Per-channel temporaries\<close>

text \<open>
  The raw graph returned by \<open>getGraph\<close> and the waveform returned by \<open>makeWf\<close> are
  heap objects that \<open>next\<close> owns and deletes. The heap is the set of live object
  identifiers together with the next identifier to hand out.
\<close>

record heap =
  fresh :: nat
  live :: "nat set"

definition new_obj :: "heap \<Rightarrow> nat \<times> heap" where
  "new_obj h = (fresh h, h\<lparr>fresh := Suc (fresh h), live := insert (fresh h) (live h)\<rparr>)"

definition delete_obj :: "nat \<Rightarrow> heap \<Rightarrow> heap" where
  "delete_obj p h = h\<lparr>live := live h - {p}\<rparr>"

definition heap_ok :: "heap \<Rightarrow> bool" where
  "heap_ok h = (\<forall>p \<in> live h. p < fresh h)"

section \<open>External collaborators\<close>

text \<open>
  \<open>AnitaDataset\<close>, \<open>UsefulAnitaEvent\<close>, \<open>TGraph\<close> and \<open>AnalysisWaveform\<close> belong to
  external libraries. The reader is therefore parametric in their operations:
  \<open>'d\<close> is the state of the dataset (its cursor), \<open>'u\<close> a calibrated event, \<open>'g\<close> a raw
  graph and \<open>'s\<close> the sample type of the evenly resampled waveform.
  \<^item> \<open>open_run\<close>: the constructor \<open>AnitaDataset(run, ...)\<close>;
  \<^item> \<open>header_eventNumber\<close>: \<open>dataset_.header()->eventNumber\<close>, as the \<open>int\<close> that is
    stored in \<open>evno\<close>;
  \<^item> \<open>useful\<close>: \<open>dataset_.useful()\<close>;
  \<^item> \<open>getGraph\<close>: \<open>useful->getGraph(ring, phi, pol)\<close>;
  \<^item> \<open>makeWf_even\<close>: the samples \<open>AnalysisWaveform::makeWf(gr, false)->even()->GetY()\<close>,
    whose count \<open>GetN()\<close> is the length of the list;
  \<^item> \<open>dataset_next\<close>: \<open>dataset_.next()\<close>;
  \<^item> \<open>getCurrRun\<close>: \<open>dataset_.getCurrRun()\<close>, converted to \<open>unsigned int\<close> as in the
    comparison with and the assignment to \<open>run_\<close>;
  \<^item> \<open>to_elem\<close>: the conversion of a sample to the buffer's element type done by the
    assignment \<open>r(...) = signal[sample]\<close>.
\<close>

record ('d, 'u, 'g, 's, 'f) collaborators =
  open_run :: "int \<Rightarrow> 'd"
  header_eventNumber :: "'d \<Rightarrow> int"
  useful :: "'d \<Rightarrow> 'u"
  getGraph :: "'u \<Rightarrow> AnitaRing \<Rightarrow> nat \<Rightarrow> AnitaPol \<Rightarrow> 'g"
  makeWf_even :: "'g \<Rightarrow> 's list"
  dataset_next :: "'d \<Rightarrow> 'd"
  getCurrRun :: "'d \<Rightarrow> 32 word"
  to_elem :: "'s \<Rightarrow> 'f"

section \<open>The reader\<close>

text \<open>
  The two data members \<open>run_\<close> (an \<open>unsigned int\<close>) and \<open>dataset_\<close>, named here
  after their uses \<open>this->run_\<close> and \<open>dataset_\<close>.
\<close>

record 'd WaveformReader =
  this_run :: "32 word"
  this_dataset :: 'd

text \<open>The constructor: \<open>run_(run)\<close> converts the \<open>int\<close> argument to \<open>unsigned int\<close>.\<close>

definition WaveformReader_init ::
  "('d, 'u, 'g, 's, 'f) collaborators \<Rightarrow> int \<Rightarrow> 'd WaveformReader" where
  "WaveformReader_init c run = \<lparr>this_run = word_of_int run, this_dataset = open_run c run\<rparr>"

text \<open>A \<open>for\<close> loop over a fixed range whose body may hit undefined behaviour.\<close>

fun for_each :: "'a list \<Rightarrow> ('a \<Rightarrow> 'st \<Rightarrow> fault + 'st) \<Rightarrow> 'st \<Rightarrow> fault + 'st" where
  "for_each [] body st = Inr st"
| "for_each (x # xs) body st =
     (case body x st of Inl e \<Rightarrow> Inl e | Inr st' \<Rightarrow> for_each xs body st')"

text \<open>
  \<open>const int N{std::min(waveform->even()->GetN(), int(r.shape(4)))}\<close>: the extent of
  the sample axis is narrowed from \<open>ssize_t\<close> to a 32-bit \<open>int\<close> before the minimum
  is taken.
\<close>

definition num_samples :: "'s list \<Rightarrow> nat \<Rightarrow> int" where
  "num_samples signal B = min (int (length signal)) (sint (word_of_nat B :: 32 word))"

text \<open>The sample loop \<open>for (sample = 0; sample < N; sample++)\<close>.\<close>

definition sample_loop ::
  "('s \<Rightarrow> 'f) \<Rightarrow> 's list \<Rightarrow> int \<Rightarrow> nat \<Rightarrow> nat \<Rightarrow> nat \<Rightarrow> nat
   \<Rightarrow> 'f NumpyArray \<Rightarrow> fault + 'f NumpyArray" where
  "sample_loop conv signal N event phi ring pol =
     for_each [0..<nat N]
       (\<lambda>sample r. r_assign r (event, phi, ring, pol, sample) (conv (signal ! sample)))"

text \<open>The body of the innermost channel loop, from \<open>getGraph\<close> to the two \<open>delete\<close>s.\<close>

definition channel_body ::
  "('d, 'u, 'g, 's, 'f) collaborators \<Rightarrow> 'u \<Rightarrow> nat \<Rightarrow> nat \<Rightarrow> AnitaRing \<Rightarrow> AnitaPol
   \<Rightarrow> 'f NumpyArray \<times> heap \<Rightarrow> fault + 'f NumpyArray \<times> heap" where
  "channel_body c u event phi ring pol = (\<lambda>(r, h).
     let (gr_ptr, h1) = new_obj h;
         gr = getGraph c u ring phi pol;
         (waveform_ptr, h2) = new_obj h1;
         signal = makeWf_even c gr;
         N = num_samples signal (shape4 r)
     in case sample_loop (to_elem c) signal N event phi (ring_index ring) (pol_index pol) r of
          Inl e \<Rightarrow> Inl e
        | Inr r' \<Rightarrow> Inr (r', delete_obj gr_ptr (delete_obj waveform_ptr h2)))"

text \<open>The phi, ring and polarisation loops for one event slot.\<close>

definition fill_event ::
  "('d, 'u, 'g, 's, 'f) collaborators \<Rightarrow> 'u \<Rightarrow> nat
   \<Rightarrow> 'f NumpyArray \<times> heap \<Rightarrow> fault + 'f NumpyArray \<times> heap" where
  "fill_event c u event = (\<lambda>(r, h).
     for_each [0..<shape1 r] (\<lambda>phi.
       for_each [kTopRing, kMiddleRing, kBottomRing] (\<lambda>ring.
         for_each [kHorizontal, kVertical] (\<lambda>pol.
           channel_body c u event phi ring pol))) (r, h))"

text \<open>
  The event loop, with its early return when the run has changed after
  \<open>dataset_.next()\<close>. The result is the returned \<open>evno\<close>, the reader, the buffer and the
  heap.
\<close>

fun event_loop ::
  "('d, 'u, 'g, 's, 'f) collaborators \<Rightarrow> nat list \<Rightarrow> int \<Rightarrow> 'd WaveformReader
   \<Rightarrow> 'f NumpyArray \<times> heap \<Rightarrow> fault + int \<times> 'd WaveformReader \<times> 'f NumpyArray \<times> heap" where
  "event_loop c [] evno rd bh = Inr (evno, rd, bh)"
| "event_loop c (event # rest) evno rd bh =
     (let evno' = header_eventNumber c (this_dataset rd);
          u = useful c (this_dataset rd)
      in case fill_event c u event bh of
           Inl e \<Rightarrow> Inl e
         | Inr bh' \<Rightarrow>
             (let rd' = rd\<lparr>this_dataset := dataset_next c (this_dataset rd)\<rparr>
              in if getCurrRun c (this_dataset rd') \<noteq> this_run rd'
                 then Inr (evno', rd'\<lparr>this_run := getCurrRun c (this_dataset rd')\<rparr>, bh')
                 else event_loop c rest evno' rd' bh'))"

definition WaveformReader_next ::
  "('d, 'u, 'g, 's, 'f) collaborators \<Rightarrow> 'd WaveformReader \<Rightarrow> 'f NumpyArray \<Rightarrow> heap
   \<Rightarrow> fault + int \<times> 'd WaveformReader \<times> 'f NumpyArray \<times> heap" where
  "WaveformReader_next c rd r h = event_loop c [0..<shape0 r] 0 rd (r, h)"


text \<open>
  Repeated calls on one reader, one buffer per call, collecting the returned event
  numbers in call order.
\<close>

fun next_calls ::
  "('d, 'u, 'g, 's, 'f) collaborators \<Rightarrow> 'd WaveformReader \<Rightarrow> 'f NumpyArray list \<Rightarrow> heap
   \<Rightarrow> fault + int list \<times> 'd WaveformReader \<times> 'f NumpyArray list \<times> heap" where
  "next_calls c rd [] h = Inr ([], rd, [], h)"
| "next_calls c rd (r # rs) h =
     (case WaveformReader_next c rd r h of
        Inl e \<Rightarrow> Inl e
      | Inr (evno, rd1, r1, h1) \<Rightarrow>
          (case next_calls c rd1 rs h1 of
             Inl e \<Rightarrow> Inl e
           | Inr (evnos, rd2, rs2, h2) \<Rightarrow> Inr (evno # evnos, rd2, r1 # rs2, h2)))"

section \<open>Notions used to state the properties\<close>

text \<open>
  The precondition documented in the source ("If the array that you pass in does not
  have the right number of rings and polarizations, then you will get garbage"): the ring
  axis holds the three rings and the polarisation axis the two polarisations.
\<close>

definition geometry_ok :: "'f NumpyArray \<Rightarrow> bool" where
  "geometry_ok r = (3 \<le> shape2 r \<and> 2 \<le> shape3 r)"

text \<open>The dataset after \<open>i\<close> advances from \<open>d0\<close>.\<close>

definition cursor :: "('d, 'u, 'g, 's, 'f) collaborators \<Rightarrow> 'd \<Rightarrow> nat \<Rightarrow> 'd" where
  "cursor c d0 i = (dataset_next c ^^ i) d0"

text \<open>
  The number of events a call attempts when the buffer has \<open>n\<close> event slots: events are
  attempted one after the other until the run reported after an advance differs from the
  stored run, or until the slots are used up.
\<close>

fun attempted ::
  "('d, 'u, 'g, 's, 'f) collaborators \<Rightarrow> 32 word \<Rightarrow> 'd \<Rightarrow> nat \<Rightarrow> nat" where
  "attempted c run d 0 = 0"
| "attempted c run d (Suc n) =
     (if getCurrRun c (dataset_next c d) \<noteq> run then 1
      else Suc (attempted c run (dataset_next c d) n))"

text \<open>The resampled waveform of a channel of a calibrated event.\<close>

definition signal_of ::
  "('d, 'u, 'g, 's, 'f) collaborators \<Rightarrow> 'u \<Rightarrow> AnitaRing \<Rightarrow> nat \<Rightarrow> AnitaPol \<Rightarrow> 's list" where
  "signal_of c u ring phi pol = makeWf_even c (getGraph c u ring phi pol)"

text \<open>The number of samples the sample loop copies for a channel: the source's \<open>N\<close>.\<close>

definition copied ::
  "('d, 'u, 'g, 's, 'f) collaborators \<Rightarrow> 'u \<Rightarrow> nat \<Rightarrow> AnitaRing \<Rightarrow> nat \<Rightarrow> AnitaPol \<Rightarrow> nat" where
  "copied c u B ring phi pol = nat (num_samples (signal_of c u ring phi pol) B)"

text \<open>Decoding a ring or polarisation index back to the enumerator.\<close>

fun ring_of :: "nat \<Rightarrow> AnitaRing" where
  "ring_of 0 = kTopRing"
| "ring_of (Suc 0) = kMiddleRing"
| "ring_of _ = kBottomRing"

fun pol_of :: "nat \<Rightarrow> AnitaPol" where
  "pol_of 0 = kHorizontal"
| "pol_of _ = kVertical"

text \<open>The value that the event at the cursor puts at an index tuple.\<close>

definition event_val :: "('d, 'u, 'g, 's, 'f) collaborators \<Rightarrow> 'u \<Rightarrow> index5 \<Rightarrow> 'f" where
  "event_val c u idx =
     (case idx of (event, phi, ring, pol, sample) \<Rightarrow>
        to_elem c (signal_of c u (ring_of ring) phi (pol_of pol) ! sample))"

definition next_val :: "('d, 'u, 'g, 's, 'f) collaborators \<Rightarrow> 'd \<Rightarrow> index5 \<Rightarrow> 'f" where
  "next_val c d0 idx = event_val c (useful c (cursor c d0 (fst idx))) idx"

text \<open>The cells written for one channel, for one event slot and for a range of slots.\<close>

definition chan_cells ::
  "('d, 'u, 'g, 's, 'f) collaborators \<Rightarrow> 'u \<Rightarrow> nat \<Rightarrow> nat \<Rightarrow> nat \<Rightarrow> AnitaRing \<Rightarrow> AnitaPol
   \<Rightarrow> index5 set" where
  "chan_cells c u B event phi ring pol =
     (\<lambda>s. (event, phi, ring_index ring, pol_index pol, s)) ` {0..<copied c u B ring phi pol}"

definition event_cells ::
  "('d, 'u, 'g, 's, 'f) collaborators \<Rightarrow> 'u \<Rightarrow> nat \<Rightarrow> nat \<Rightarrow> nat \<Rightarrow> index5 set" where
  "event_cells c u P B event =
     {(event, phi, ring_index ring, pol_index pol, s) | phi ring pol s.
        phi < P \<and> s < copied c u B ring phi pol}"

definition batch_cells ::
  "('d, 'u, 'g, 's, 'f) collaborators \<Rightarrow> 'd \<Rightarrow> nat \<Rightarrow> nat \<Rightarrow> nat \<Rightarrow> nat \<Rightarrow> index5 set" where
  "batch_cells c d0 P B a k =
     (\<Union>event \<in> {a..<a + k}. event_cells c (useful c (cursor c d0 event)) P B event)"

text \<open>
  The effect of a loop nest on buffer and heap: the cells in \<open>S\<close> receive their value,
  \<open>n\<close> temporaries have been allocated and deleted.
\<close>

definition put_cells ::
  "(index5 \<Rightarrow> 'f) \<Rightarrow> index5 set \<Rightarrow> nat \<Rightarrow> 'f NumpyArray \<times> heap \<Rightarrow> 'f NumpyArray \<times> heap" where
  "put_cells val S n = (\<lambda>(r, h).
     (r\<lparr>elems := (\<lambda>idx. if idx \<in> S then val idx else elems r idx)\<rparr>,
      h\<lparr>fresh := fresh h + n, live := live h - {fresh h..<fresh h + n}\<rparr>))"

definition slot_ok :: "nat \<Rightarrow> nat \<Rightarrow> nat \<Rightarrow> 'f NumpyArray \<times> heap \<Rightarrow> bool" where
  "slot_ok event P B = (\<lambda>(r, h).
     event < shape0 r \<and> shape1 r = P \<and> 3 \<le> shape2 r \<and> 2 \<le> shape3 r \<and> shape4 r = B)"

definition batch_ok :: "nat \<Rightarrow> nat \<Rightarrow> nat \<Rightarrow> 'f NumpyArray \<times> heap \<Rightarrow> bool" where
  "batch_ok E P B = (\<lambda>(r, h).
     shape0 r = E \<and> shape1 r = P \<and> 3 \<le> shape2 r \<and> 2 \<le> shape3 r \<and> shape4 r = B)"

definition batch_result ::
  "('d, 'u, 'g, 's, 'f) collaborators \<Rightarrow> 'd \<Rightarrow> nat \<Rightarrow> nat \<Rightarrow> nat \<Rightarrow> nat \<Rightarrow> int
   \<Rightarrow> 'd WaveformReader \<Rightarrow> 'f NumpyArray \<times> heap
   \<Rightarrow> int \<times> 'd WaveformReader \<times> 'f NumpyArray \<times> heap" where
  "batch_result c d0 P B a k evno rd st =
     (if k = 0 then evno else header_eventNumber c (cursor c d0 (a + k - 1)),
      rd\<lparr>this_run := (if k = 0 then this_run rd else getCurrRun c (cursor c d0 (a + k))),
         this_dataset := cursor c d0 (a + k)\<rparr>,
      put_cells (next_val c d0) (batch_cells c d0 P B a k) (12 * P * k) st)"

text \<open>Reading the parts of the outcome of a call; \<open>None\<close> stands for undefined behaviour.\<close>

definition returned ::
  "fault + int \<times> 'd WaveformReader \<times> 'f NumpyArray \<times> heap \<Rightarrow> int option" where
  "returned res = (case res of Inl e \<Rightarrow> None | Inr (evno, rd, r, h) \<Rightarrow> Some evno)"

definition run_after ::
  "fault + int \<times> 'd WaveformReader \<times> 'f NumpyArray \<times> heap \<Rightarrow> 32 word option" where
  "run_after res = (case res of Inl e \<Rightarrow> None | Inr (evno, rd, r, h) \<Rightarrow> Some (this_run rd))"

definition elem_after ::
  "fault + int \<times> 'd WaveformReader \<times> 'f NumpyArray \<times> heap \<Rightarrow> index5 \<Rightarrow> 'f option" where
  "elem_after res idx =
     (case res of Inl e \<Rightarrow> None | Inr (evno, rd, r, h) \<Rightarrow> Some (elems r idx))"

section \<open>A synthetic event source\<close>

text \<open>
  A small event source on which the theorems are instantiated: the dataset is the list
  of the current and the following events, each an event number with its run; advancing
  drops the current event and stays on the last one. The trace of a channel has two
  samples; the first encodes event number, ring and polarisation, the second the
  phi-sector.
\<close>

type_synonym synth_dataset = "(int \<times> 32 word) list"

fun synth_eventNumber :: "synth_dataset \<Rightarrow> int" where
  "synth_eventNumber [] = 0"
| "synth_eventNumber ((n, run) # evs) = n"

fun synth_run :: "synth_dataset \<Rightarrow> 32 word" where
  "synth_run [] = 0"
| "synth_run ((n, run) # evs) = run"

fun synth_next :: "synth_dataset \<Rightarrow> synth_dataset" where
  "synth_next (ev # ev' # evs) = ev' # evs"
| "synth_next evs = evs"

definition synth_graph :: "int \<Rightarrow> AnitaRing \<Rightarrow> nat \<Rightarrow> AnitaPol \<Rightarrow> int list" where
  "synth_graph u ring phi pol =
     [100 * u + 10 * int (ring_index ring) + int (pol_index pol), int phi]"

definition synth :: "(synth_dataset, int, int list, int, int) collaborators" where
  "synth = \<lparr>open_run = (\<lambda>run. [(0, word_of_int run)]),
            header_eventNumber = synth_eventNumber,
            useful = synth_eventNumber,
            getGraph = synth_graph,
            makeWf_even = (\<lambda>gr. gr),
            dataset_next = synth_next,
            getCurrRun = synth_run,
            to_elem = (\<lambda>x. x)\<rparr>"

text \<open>Two runs of two events each, a reader positioned at the first event, a buffer
  pre-filled with the sentinel \<open>-1\<close>, and an empty heap.\<close>

definition two_runs :: synth_dataset where
  "two_runs = [(10, 1), (11, 1), (20, 2), (21, 2)]"

definition reader_at :: "32 word \<Rightarrow> synth_dataset \<Rightarrow> synth_dataset WaveformReader" where
  "reader_at run d = \<lparr>this_run = run, this_dataset = d\<rparr>"

definition sentinel_buffer :: "nat \<Rightarrow> nat \<Rightarrow> nat \<Rightarrow> int NumpyArray" where
  "sentinel_buffer E P B =
     \<lparr>shape0 = E, shape1 = P, shape2 = 3, shape3 = 2, shape4 = B, elems = (\<lambda>idx. - 1)\<rparr>"

definition empty_heap :: heap where
  "empty_heap = \<lparr>fresh = 0, live = {}\<rparr>"

section \<open>Auxiliary facts\<close>

subsection \<open>The narrowed sample count\<close>

lemma sint32_of_nat: "sint (word_of_nat B :: 32 word) = signed_take_bit 31 (int B)"
  using sint_sbintrunc' [where 'a = 32, of "int B"] by simp

lemma sint32_of_nat_le: "sint (word_of_nat B :: 32 word) \<le> int B"
  unfolding sint32_of_nat
  by (simp add: signed_take_bit_int_less_eq_self_iff)

lemma sint32_of_nat_small: "B < 2 ^ 31 \<Longrightarrow> sint (word_of_nat B :: 32 word) = int B"
  unfolding sint32_of_nat
  by (rule signed_take_bit_int_eq_self) (simp_all add: nat_less_iff flip: of_nat_less_iff)

lemma copied_le: "copied c u B ring phi pol \<le> B"
  using sint32_of_nat_le [of B] by (simp add: copied_def num_samples_def)

lemma copied_le_length: "copied c u B ring phi pol \<le> length (signal_of c u ring phi pol)"
  by (simp add: copied_def num_samples_def)

lemma copied_small:
  "B < 2 ^ 31 \<Longrightarrow> copied c u B ring phi pol = min (length (signal_of c u ring phi pol)) B"
  by (simp add: copied_def num_samples_def sint32_of_nat_small)

subsection \<open>Indices of rings and polarisations\<close>

lemma ring_of_index [simp]: "ring_of (ring_index ring) = ring"
  by (cases ring) (simp_all add: numeral_2_eq_2)

lemma pol_of_index [simp]: "pol_of (pol_index pol) = pol"
  by (cases pol) simp_all

lemma ring_index_inj: "ring_index a = ring_index b \<longleftrightarrow> a = b"
  by (cases a; cases b) simp_all

lemma pol_index_inj: "pol_index a = pol_index b \<longleftrightarrow> a = b"
  by (cases a; cases b) simp_all

lemma ring_index_less: "ring_index ring < 3"
  by (cases ring) simp_all

lemma pol_index_less: "pol_index pol < 2"
  by (cases pol) simp_all

lemma UN_rings: "(\<Union>ring \<in> set [kTopRing, kMiddleRing, kBottomRing]. F ring) = (\<Union>ring. F ring)"
proof -
  have "set [kTopRing, kMiddleRing, kBottomRing] = UNIV"
    using AnitaRing.exhaust by auto
  then show ?thesis by simp
qed

lemma UN_pols: "(\<Union>pol \<in> set [kHorizontal, kVertical]. F pol) = (\<Union>pol. F pol)"
proof -
  have "set [kHorizontal, kVertical] = UNIV"
    using AnitaPol.exhaust by auto
  then show ?thesis by simp
qed

subsection \<open>Composing the effects of loop iterations\<close>

lemma put_cells_empty [simp]: "put_cells val {} 0 st = st"
  by (cases st) (simp add: put_cells_def)

lemma put_cells_put_cells:
  "put_cells val S2 n2 (put_cells val S1 n1 st) = put_cells val (S1 \<union> S2) (n1 + n2) st"
proof -
  obtain r h where st: "st = (r, h)" by (cases st)
  have "live h - {fresh h..<fresh h + n1} - {fresh h + n1..<fresh h + n1 + n2}
        = live h - {fresh h..<fresh h + (n1 + n2)}"
    by auto
  then show ?thesis
    by (auto simp: st put_cells_def fun_eq_iff add.assoc)
qed

lemma put_cells_cong:
  "(\<And>idx. idx \<in> S \<Longrightarrow> val idx = val' idx) \<Longrightarrow> put_cells val S n st = put_cells val' S n st"
  by (cases st) (auto simp: put_cells_def fun_eq_iff)

lemma slot_ok_put_cells: "slot_ok event P B st \<Longrightarrow> slot_ok event P B (put_cells val S n st)"
  by (cases st) (auto simp: slot_ok_def put_cells_def)

lemma batch_ok_put_cells: "batch_ok E P B st \<Longrightarrow> batch_ok E P B (put_cells val S n st)"
  by (cases st) (auto simp: batch_ok_def put_cells_def)

lemma batch_ok_slot_ok: "batch_ok E P B st \<Longrightarrow> event < E \<Longrightarrow> slot_ok event P B st"
  by (cases st) (auto simp: batch_ok_def slot_ok_def)

lemma for_each_put_cells:
  assumes "\<And>x st. x \<in> set xs \<Longrightarrow> ok st \<Longrightarrow> body x st = Inr (put_cells val (R x) (m x) st)"
    and "\<And>S n st. ok st \<Longrightarrow> ok (put_cells val S n st)"
    and "ok st"
  shows "for_each xs body st = Inr (put_cells val (\<Union>x\<in>set xs. R x) (sum_list (map m xs)) st)"
  using assms
proof (induction xs arbitrary: st)
  case Nil
  then show ?case by simp
next
  case (Cons x xs)
  have b: "body x st = Inr (put_cells val (R x) (m x) st)"
    using Cons.prems by simp
  have ok': "ok (put_cells val (R x) (m x) st)"
    using Cons.prems by simp
  have "for_each xs body (put_cells val (R x) (m x) st)
        = Inr (put_cells val (\<Union>x\<in>set xs. R x) (sum_list (map m xs)) (put_cells val (R x) (m x) st))"
    by (rule Cons.IH) (use Cons.prems ok' in auto)
  then show ?case
    by (simp add: b put_cells_put_cells)
qed

subsection \<open>The sample loop and the channel body\<close>

lemma for_each_assign:
  assumes "event < shape0 r" "phi < shape1 r" "ring < shape2 r" "pol < shape3 r"
    and "\<forall>s \<in> set ss. s < shape4 r"
  shows "for_each ss (\<lambda>sample r. r_assign r (event, phi, ring, pol, sample) (conv (signal ! sample))) r
         = Inr (r\<lparr>elems := (\<lambda>idx. if idx \<in> (\<lambda>s. (event, phi, ring, pol, s)) ` set ss
                                   then conv (signal ! snd (snd (snd (snd idx))))
                                   else elems r idx)\<rparr>)"
  using assms
proof (induction ss arbitrary: r)
  case Nil
  then show ?case by simp
next
  case (Cons s ss)
  let ?r1 = "r\<lparr>elems := (elems r)((event, phi, ring, pol, s) := conv (signal ! s))\<rparr>"
  have a: "r_assign r (event, phi, ring, pol, s) (conv (signal ! s)) = Inr ?r1"
    using Cons.prems by (simp add: r_assign_def in_shape_def)
  have "for_each ss (\<lambda>sample r. r_assign r (event, phi, ring, pol, sample) (conv (signal ! sample))) ?r1
         = Inr (?r1\<lparr>elems := (\<lambda>idx. if idx \<in> (\<lambda>s. (event, phi, ring, pol, s)) ` set ss
                                   then conv (signal ! snd (snd (snd (snd idx))))
                                   else elems ?r1 idx)\<rparr>)"
    by (rule Cons.IH) (use Cons.prems in auto)
  then show ?case
    by (auto simp: a fun_eq_iff)
qed

lemma heap_release:
  "delete_obj (fresh h) (delete_obj (Suc (fresh h))
     (h\<lparr>fresh := Suc (Suc (fresh h)), live := insert (Suc (fresh h)) (insert (fresh h) (live h))\<rparr>))
   = h\<lparr>fresh := fresh h + 2, live := live h - {fresh h..<fresh h + 2}\<rparr>"
proof -
  have "insert (Suc (fresh h)) (insert (fresh h) (live h)) - {Suc (fresh h)} - {fresh h}
        = live h - {fresh h..<fresh h + 2}"
    by auto
  then show ?thesis
    by (simp add: delete_obj_def)
qed

lemma channel_body_closed:
  assumes "slot_ok event P B (r, h)" and "phi < P"
  shows "channel_body c u event phi ring pol (r, h)
         = Inr (put_cells (event_val c u) (chan_cells c u B event phi ring pol) 2 (r, h))"
proof -
  let ?sig = "signal_of c u ring phi pol"
  let ?n = "copied c u B ring phi pol"
  from assms have sh: "event < shape0 r" "phi < shape1 r" "ring_index ring < shape2 r"
    "pol_index pol < shape3 r" "shape4 r = B"
    using ring_index_less [of ring] pol_index_less [of pol] by (auto simp: slot_ok_def)
  have bound: "\<forall>s \<in> set [0..<?n]. s < shape4 r"
    using copied_le [of c u B ring phi pol] sh(5) by auto
  have loop: "sample_loop (to_elem c) ?sig (num_samples ?sig (shape4 r)) event phi
                (ring_index ring) (pol_index pol) r
              = Inr (r\<lparr>elems := (\<lambda>idx. if idx \<in> chan_cells c u B event phi ring pol
                                        then event_val c u idx else elems r idx)\<rparr>)"
    unfolding sample_loop_def
    using for_each_assign [OF sh(1-4) bound, of "to_elem c" ?sig]
    by (auto simp: copied_def sh(5) chan_cells_def event_val_def fun_eq_iff
        intro!: arg_cong [where f = "\<lambda>f. r\<lparr>elems := f\<rparr>"])
  show ?thesis
    using loop heap_release [of h]
    by (simp add: channel_body_def new_obj_def Let_def signal_of_def put_cells_def)
qed

subsection \<open>One event slot\<close>

lemma event_cells_UN:
  "(\<Union>phi \<in> set [0..<P]. \<Union>ring \<in> set [kTopRing, kMiddleRing, kBottomRing].
      \<Union>pol \<in> set [kHorizontal, kVertical]. chan_cells c u B event phi ring pol)
   = event_cells c u P B event"
  unfolding UN_rings UN_pols
proof (intro set_eqI iffI)
  fix idx
  assume "idx \<in> (\<Union>phi \<in> set [0..<P]. \<Union>ring. \<Union>pol. chan_cells c u B event phi ring pol)"
  then obtain phi ring pol s where "phi < P" "s < copied c u B ring phi pol"
    "idx = (event, phi, ring_index ring, pol_index pol, s)"
    by (auto simp: chan_cells_def)
  then show "idx \<in> event_cells c u P B event"
    unfolding event_cells_def by blast
next
  fix idx
  assume "idx \<in> event_cells c u P B event"
  then obtain phi ring pol s where "phi < P" "s < copied c u B ring phi pol"
    "idx = (event, phi, ring_index ring, pol_index pol, s)"
    unfolding event_cells_def by blast
  then have "idx \<in> chan_cells c u B event phi ring pol" and "phi \<in> set [0..<P]"
    by (simp_all add: chan_cells_def)
  then show "idx \<in> (\<Union>phi \<in> set [0..<P]. \<Union>ring. \<Union>pol. chan_cells c u B event phi ring pol)"
    by blast
qed

lemma fill_event_closed:
  assumes "slot_ok event P B st"
  shows "fill_event c u event st
         = Inr (put_cells (event_val c u) (event_cells c u P B event) (12 * P) st)"
proof -
  obtain r h where st: "st = (r, h)" by (cases st)
  have pols: "for_each [kHorizontal, kVertical] (\<lambda>pol. channel_body c u event phi ring pol) st'
        = Inr (put_cells (event_val c u)
                 (\<Union>pol \<in> set [kHorizontal, kVertical]. chan_cells c u B event phi ring pol)
                 (sum_list (map (\<lambda>pol. 2) [kHorizontal, kVertical])) st')"
    if "phi < P" "slot_ok event P B st'" for phi ring st'
  proof (rule for_each_put_cells [where ok = "slot_ok event P B"])
    show "channel_body c u event phi ring x s
          = Inr (put_cells (event_val c u) (chan_cells c u B event phi ring x) 2 s)"
      if "slot_ok event P B s" for x s
      using that \<open>phi < P\<close> by (cases s) (simp add: channel_body_closed)
  qed (use that in \<open>simp_all add: slot_ok_put_cells\<close>)
  have rings: "for_each [kTopRing, kMiddleRing, kBottomRing] (\<lambda>ring.
          for_each [kHorizontal, kVertical] (\<lambda>pol. channel_body c u event phi ring pol)) st'
        = Inr (put_cells (event_val c u)
                 (\<Union>ring \<in> set [kTopRing, kMiddleRing, kBottomRing].
                    \<Union>pol \<in> set [kHorizontal, kVertical]. chan_cells c u B event phi ring pol)
                 (sum_list (map (\<lambda>ring. 4) [kTopRing, kMiddleRing, kBottomRing])) st')"
    if "phi < P" "slot_ok event P B st'" for phi st'
  proof (rule for_each_put_cells [where ok = "slot_ok event P B"])
    show "for_each [kHorizontal, kVertical] (channel_body c u event phi x) s
          = Inr (put_cells (event_val c u)
                   (\<Union>pol \<in> set [kHorizontal, kVertical]. chan_cells c u B event phi x pol) 4 s)"
      if "slot_ok event P B s" for x s
      using pols [OF \<open>phi < P\<close> that, of x] by simp
  qed (use that in \<open>simp_all add: slot_ok_put_cells\<close>)
  have phis: "for_each [0..<P] (\<lambda>phi.
          for_each [kTopRing, kMiddleRing, kBottomRing] (\<lambda>ring.
            for_each [kHorizontal, kVertical] (\<lambda>pol. channel_body c u event phi ring pol))) st
        = Inr (put_cells (event_val c u)
                 (\<Union>phi \<in> set [0..<P]. \<Union>ring \<in> set [kTopRing, kMiddleRing, kBottomRing].
                    \<Union>pol \<in> set [kHorizontal, kVertical]. chan_cells c u B event phi ring pol)
                 (sum_list (map (\<lambda>phi. 12) [0..<P])) st)"
  proof (rule for_each_put_cells [where ok = "slot_ok event P B"])
    show "for_each [kTopRing, kMiddleRing, kBottomRing] (\<lambda>ring.
            for_each [kHorizontal, kVertical] (channel_body c u event x ring)) s
          = Inr (put_cells (event_val c u)
                   (\<Union>ring \<in> set [kTopRing, kMiddleRing, kBottomRing].
                      \<Union>pol \<in> set [kHorizontal, kVertical]. chan_cells c u B event x ring pol) 12 s)"
      if "x \<in> set [0..<P]" "slot_ok event P B s" for x s
      using rings [OF _ that(2), of x] that(1) by simp
  qed (use assms in \<open>simp_all add: slot_ok_put_cells\<close>)
  have P: "shape1 r = P"
    using assms by (simp add: st slot_ok_def)
  have "sum_list (map (\<lambda>phi. 12) [0..<P]) = 12 * P"
    by (simp add: sum_list_triv)
  with phis [unfolded event_cells_UN] show ?thesis
    by (simp add: fill_event_def st P)
qed

subsection \<open>The event loop\<close>

lemma cursor_0 [simp]: "cursor c d0 0 = d0"
  by (simp add: cursor_def)

lemma cursor_Suc: "dataset_next c (cursor c d0 i) = cursor c d0 (Suc i)"
  by (simp add: cursor_def)

lemma batch_cells_0 [simp]: "batch_cells c d0 P B a 0 = {}"
  by (simp add: batch_cells_def)

lemma batch_cells_Suc:
  "batch_cells c d0 P B a (Suc k)
   = event_cells c (useful c (cursor c d0 a)) P B a \<union> batch_cells c d0 P B (Suc a) k"
proof -
  have "{a..<a + Suc k} = insert a {Suc a..<Suc a + k}"
    by auto
  then show ?thesis
    by (simp add: batch_cells_def)
qed

lemma fill_event_next_val:
  assumes "batch_ok E P B st" and "event < E"
  shows "fill_event c (useful c (cursor c d0 event)) event st
         = Inr (put_cells (next_val c d0)
                  (event_cells c (useful c (cursor c d0 event)) P B event) (12 * P) st)"
proof -
  have "put_cells (event_val c (useful c (cursor c d0 event)))
          (event_cells c (useful c (cursor c d0 event)) P B event) (12 * P) st
        = put_cells (next_val c d0)
          (event_cells c (useful c (cursor c d0 event)) P B event) (12 * P) st"
    by (rule put_cells_cong) (auto simp: event_cells_def next_val_def)
  with fill_event_closed [OF batch_ok_slot_ok [OF assms], of c "useful c (cursor c d0 event)"]
  show ?thesis by simp
qed

lemma event_loop_closed:
  assumes "batch_ok E P B st" and "this_dataset rd = cursor c d0 a"
  shows "event_loop c [a..<E] evno rd st
         = Inr (batch_result c d0 P B a (attempted c (this_run rd) (this_dataset rd) (E - a))
                  evno rd st)"
  using assms
proof (induction "E - a" arbitrary: a evno rd st)
  case 0
  then have "[a..<E] = []" by simp
  moreover have "rd\<lparr>this_run := this_run rd, this_dataset := cursor c d0 a\<rparr> = rd"
    using "0.prems"(2) by simp
  ultimately show ?case
    using "0.hyps" by (simp add: batch_result_def)
next
  case (Suc n)
  then have lt: "a < E" and n: "n = E - Suc a" by simp_all
  have upt: "[a..<E] = a # [Suc a..<E]"
    using lt by (simp add: upt_conv_Cons)
  let ?d = "cursor c d0 a"
  let ?st1 = "put_cells (next_val c d0) (event_cells c (useful c ?d) P B a) (12 * P) st"
  let ?rd1 = "rd\<lparr>this_dataset := cursor c d0 (Suc a)\<rparr>"
  have fill: "fill_event c (useful c ?d) a st = Inr ?st1"
    by (rule fill_event_next_val [OF Suc.prems(1) lt])
  have ok1: "batch_ok E P B ?st1"
    by (rule batch_ok_put_cells [OF Suc.prems(1)])
  have E: "E - a = Suc n" using Suc.hyps(2) by simp
  show ?case
  proof (cases "getCurrRun c (cursor c d0 (Suc a)) \<noteq> this_run rd")
    case True
    then show ?thesis
      using fill
      by (simp add: upt Suc.prems(2) E cursor_Suc batch_result_def batch_cells_Suc Let_def)
  next
    case False
    have rec: "event_loop c [Suc a..<E] (header_eventNumber c ?d) ?rd1 ?st1
         = Inr (batch_result c d0 P B (Suc a)
                  (attempted c (this_run ?rd1) (this_dataset ?rd1) (E - Suc a))
                  (header_eventNumber c ?d) ?rd1 ?st1)"
      by (rule Suc.hyps(1) [OF n ok1]) simp
    show ?thesis
      using False fill rec
      by (simp add: upt Suc.prems(2) E n [symmetric] cursor_Suc batch_result_def
          batch_cells_Suc Let_def put_cells_put_cells algebra_simps)
  qed
qed

lemma next_closed:
  assumes "geometry_ok r"
  shows "WaveformReader_next c rd r h
         = Inr (batch_result c (this_dataset rd) (shape1 r) (shape4 r) 0
                  (attempted c (this_run rd) (this_dataset rd) (shape0 r)) 0 rd (r, h))"
proof -
  have "batch_ok (shape0 r) (shape1 r) (shape4 r) (r, h)"
    using assms by (simp add: batch_ok_def geometry_ok_def)
  from event_loop_closed [OF this, of rd c "this_dataset rd" 0 0]
  show ?thesis
    by (simp add: WaveformReader_next_def)
qed

subsection \<open>How many events a call attempts\<close>

lemma cursor_shift: "cursor c (dataset_next c d) i = cursor c d (Suc i)"
  by (simp add: cursor_def funpow_swap1)

lemma attempted_le: "attempted c run d n \<le> n"
  by (induction n arbitrary: d) simp_all

lemma attempted_pos: "0 < n \<Longrightarrow> 0 < attempted c run d n"
  by (cases n) simp_all

lemma attempted_one [simp]: "attempted c run d (Suc 0) = 1"
  by simp

lemma attempted_same_run:
  "1 \<le> i \<Longrightarrow> i < attempted c run d n \<Longrightarrow> getCurrRun c (cursor c d i) = run"
proof (induction n arbitrary: d i)
  case 0
  then show ?case by simp
next
  case (Suc n)
  show ?case
  proof (cases "getCurrRun c (dataset_next c d) \<noteq> run")
    case True
    with Suc.prems show ?thesis by simp
  next
    case False
    then have k: "attempted c run d (Suc n) = Suc (attempted c run (dataset_next c d) n)"
      by simp
    show ?thesis
    proof (cases "i = 1")
      case True
      with False show ?thesis by (simp add: cursor_def)
    next
      case False
      with Suc.prems obtain j where j: "i = Suc j" "1 \<le> j"
        by (cases i) auto
      with Suc.prems k have "j < attempted c run (dataset_next c d) n" by simp
      from Suc.IH [OF j(2) this] show ?thesis
        by (simp add: j(1) cursor_shift)
    qed
  qed
qed

lemma attempted_boundary:
  "attempted c run d n < n \<Longrightarrow> getCurrRun c (cursor c d (attempted c run d n)) \<noteq> run"
proof (induction n arbitrary: d)
  case 0
  then show ?case by simp
next
  case (Suc n)
  show ?case
  proof (cases "getCurrRun c (dataset_next c d) \<noteq> run")
    case True
    then show ?thesis by (simp add: cursor_def)
  next
    case False
    with Suc.prems have "attempted c run (dataset_next c d) n < n" by simp
    from Suc.IH [OF this] False show ?thesis
      by (simp add: cursor_shift)
  qed
qed

lemma attempted_full:
  "(\<And>i. 1 \<le> i \<Longrightarrow> i < n \<Longrightarrow> getCurrRun c (cursor c d i) = run) \<Longrightarrow> attempted c run d n = n"
proof (rule ccontr)
  assume same: "\<And>i. 1 \<le> i \<Longrightarrow> i < n \<Longrightarrow> getCurrRun c (cursor c d i) = run"
  assume "attempted c run d n \<noteq> n"
  with attempted_le [of c run d n] have lt: "attempted c run d n < n" by simp
  then have "0 < n" by simp
  from attempted_pos [OF this, of c run d] have "1 \<le> attempted c run d n" by simp
  from same [OF this lt] attempted_boundary [OF lt] show False by simp
qed

subsection \<open>The outcome of a call\<close>

lemma batch_cells_iff:
  "(event, phi, rg, pl, s) \<in> batch_cells c d0 P B 0 k \<longleftrightarrow>
     event < k \<and> phi < P \<and>
     (\<exists>ring pol. rg = ring_index ring \<and> pl = pol_index pol
        \<and> s < copied c (useful c (cursor c d0 event)) B ring phi pol)"
  by (auto simp: batch_cells_def event_cells_def)

lemma next_val_channel:
  "next_val c d0 (event, phi, ring_index ring, pol_index pol, s)
   = to_elem c (signal_of c (useful c (cursor c d0 event)) ring phi pol ! s)"
  by (simp add: next_val_def event_val_def)

lemma next_outcome:
  assumes "geometry_ok r"
    and "k = attempted c (this_run rd) (this_dataset rd) (shape0 r)"
    and "d0 = this_dataset rd"
  obtains rd' r' h' where
    "WaveformReader_next c rd r h
     = Inr (if k = 0 then 0 else header_eventNumber c (cursor c d0 (k - 1)), rd', r', h')"
    and "this_dataset rd' = cursor c d0 k"
    and "this_run rd' = (if k = 0 then this_run rd else getCurrRun c (cursor c d0 k))"
    and "shape0 r' = shape0 r \<and> shape1 r' = shape1 r \<and> shape2 r' = shape2 r
         \<and> shape3 r' = shape3 r \<and> shape4 r' = shape4 r"
    and "\<And>idx. elems r' idx =
           (if idx \<in> batch_cells c d0 (shape1 r) (shape4 r) 0 k
            then next_val c d0 idx else elems r idx)"
    and "live h' = live h - {fresh h..<fresh h + 12 * shape1 r * k}"
    and "fresh h' = fresh h + 12 * shape1 r * k"
proof -
  let ?res = "batch_result c d0 (shape1 r) (shape4 r) 0 k 0 rd (r, h)"
  obtain ev rd' r' h' where res: "?res = (ev, rd', r', h')"
    by (cases ?res) auto
  have nx: "WaveformReader_next c rd r h = Inr (ev, rd', r', h')"
    using next_closed [OF assms(1), of c rd h] res assms(2,3) by simp
  from res [symmetric]
  have ev: "ev = (if k = 0 then 0 else header_eventNumber c (cursor c d0 (k - 1)))"
    and rd': "rd' = rd\<lparr>this_run := (if k = 0 then this_run rd else getCurrRun c (cursor c d0 k)),
                        this_dataset := cursor c d0 k\<rparr>"
    and st: "(r', h') = put_cells (next_val c d0) (batch_cells c d0 (shape1 r) (shape4 r) 0 k)
                          (12 * shape1 r * k) (r, h)"
    unfolding batch_result_def by simp_all
  from st have r': "r' = r\<lparr>elems := (\<lambda>idx. if idx \<in> batch_cells c d0 (shape1 r) (shape4 r) 0 k
                                        then next_val c d0 idx else elems r idx)\<rparr>"
    and h': "h' = h\<lparr>fresh := fresh h + 12 * shape1 r * k,
                     live := live h - {fresh h..<fresh h + 12 * shape1 r * k}\<rparr>"
    by (simp_all add: put_cells_def)
  show thesis
  proof (rule that [of rd' r' h'])
    show "WaveformReader_next c rd r h
     = Inr (if k = 0 then 0 else header_eventNumber c (cursor c d0 (k - 1)), rd', r', h')"
      using nx ev by simp
  qed (simp_all add: rd' r' h')
qed

subsection \<open>The synthetic source\<close>

lemma reader_at_simps [simp]:
  "this_run (reader_at run d) = run" "this_dataset (reader_at run d) = d"
  by (simp_all add: reader_at_def)

lemma sentinel_buffer_simps [simp]:
  "shape0 (sentinel_buffer E P B) = E" "shape1 (sentinel_buffer E P B) = P"
  "shape2 (sentinel_buffer E P B) = 3" "shape3 (sentinel_buffer E P B) = 2"
  "shape4 (sentinel_buffer E P B) = B" "elems (sentinel_buffer E P B) idx = - 1"
  by (simp_all add: sentinel_buffer_def)

lemma sentinel_geometry [simp]: "geometry_ok (sentinel_buffer E P B)"
  by (simp add: geometry_ok_def)

lemma synth_simps [simp]:
  "header_eventNumber synth = synth_eventNumber" "useful synth = synth_eventNumber"
  "getGraph synth = synth_graph" "makeWf_even synth = (\<lambda>gr. gr)"
  "dataset_next synth = synth_next" "getCurrRun synth = synth_run" "to_elem synth = (\<lambda>x. x)"
  by (simp_all add: synth_def)

lemma two_runs_cursor:
  "cursor synth two_runs (Suc 0) = [(11, 1), (20, 2), (21, 2)]"
  "cursor synth two_runs 2 = [(20, 2), (21, 2)]"
  by (simp_all add: cursor_def two_runs_def numeral_2_eq_2)

lemma two_runs_attempted:
  "attempted synth 1 two_runs (Suc 0) = 1"
  "attempted synth 1 two_runs 2 = 2"
  "attempted synth 1 two_runs 3 = 2"
  by (simp_all add: two_runs_def numeral_2_eq_2 numeral_3_eq_3)

subsection \<open>The heap across a call\<close>

lemma heap_ok_released:
  assumes "heap_ok h" and "live h' = live h - {fresh h..<fresh h + n}" and "fresh h' = fresh h + n"
  shows "live h' = live h \<and> heap_ok h'"
proof -
  from assms(1) have "live h - {fresh h..<fresh h + n} = live h"
    by (auto simp: heap_ok_def)
  with assms show ?thesis
    by (auto simp: heap_ok_def)
qed

lemma next_heap:
  assumes "geometry_ok r" and "heap_ok h"
  shows "\<exists>evno rd' r' h'.
           WaveformReader_next c rd r h = Inr (evno, rd', r', h') \<and> live h' = live h \<and> heap_ok h'"
proof (rule next_outcome [OF assms(1) refl refl, where h = h and c = c and rd = rd])
  fix rd' r' h'
  let ?k = "attempted c (this_run rd) (this_dataset rd) (shape0 r)"
  assume nx: "WaveformReader_next c rd r h
      = Inr (if ?k = 0 then 0
             else header_eventNumber c (cursor c (this_dataset rd) (?k - 1)), rd', r', h')"
    and lv: "live h' = live h - {fresh h..<fresh h + 12 * shape1 r * ?k}"
    and fr: "fresh h' = fresh h + 12 * shape1 r * ?k"
  from heap_ok_released [OF assms(2) lv fr] nx
  have "WaveformReader_next c rd r h
      = Inr (if ?k = 0 then 0
             else header_eventNumber c (cursor c (this_dataset rd) (?k - 1)), rd', r', h')
        \<and> live h' = live h \<and> heap_ok h'"
    by simp
  then show ?thesis
    by - (rule exI, rule exI, rule exI, rule exI, assumption)
qed

section \<open>The returned event number\<close>

text \<open>
  C1: for a buffer with at least one event slot, \<open>next\<close> returns the event number read
  from the header of the last event it attempted. With \<open>k\<close> the number of events
  attempted, the call leaves the cursor \<open>k\<close> advances further and returns the event
  number found \<open>k - 1\<close> advances from the start. \<open>k\<close> is the number of slots on the
  full-batch path and, on the early-return path, the position of the first advance after
  which the source reports a run other than the stored one.
\<close>

theorem next_returns_last_attempted:
  assumes "geometry_ok r" and "1 \<le> shape0 r"
  shows "let d0 = this_dataset rd; run = this_run rd; k = attempted c run d0 (shape0 r) in
           (\<exists>rd' r' h'.
              WaveformReader_next c rd r h
                = Inr (header_eventNumber c (cursor c d0 (k - 1)), rd', r', h')
              \<and> this_dataset rd' = cursor c d0 k)
           \<and> 1 \<le> k \<and> k \<le> shape0 r
           \<and> (\<forall>i. 1 \<le> i \<and> i < k \<longrightarrow> getCurrRun c (cursor c d0 i) = run)
           \<and> (k < shape0 r \<longrightarrow> getCurrRun c (cursor c d0 k) \<noteq> run)"
proof -
  define k where "k = attempted c (this_run rd) (this_dataset rd) (shape0 r)"
  from assms(2) have pos: "0 < k"
    unfolding k_def by (intro attempted_pos) simp
  have call: "\<exists>rd' r' h'.
      WaveformReader_next c rd r h
        = Inr (header_eventNumber c (cursor c (this_dataset rd) (k - 1)), rd', r', h')
      \<and> this_dataset rd' = cursor c (this_dataset rd) k"
  proof (rule next_outcome [OF assms(1) k_def refl, where h = h])
    fix rd' r' h'
    assume "WaveformReader_next c rd r h
      = Inr (if k = 0 then 0 else header_eventNumber c (cursor c (this_dataset rd) (k - 1)),
             rd', r', h')"
      and "this_dataset rd' = cursor c (this_dataset rd) k"
    with pos show ?thesis by simp
  qed
  have lo: "1 \<le> k" using pos by simp
  have hi: "k \<le> shape0 r" unfolding k_def by (rule attempted_le)
  have same: "\<forall>i. 1 \<le> i \<and> i < k \<longrightarrow> getCurrRun c (cursor c (this_dataset rd) i) = this_run rd"
    unfolding k_def
    by (intro allI impI attempted_same_run [of _ c "this_run rd" "this_dataset rd" "shape0 r"])
       simp_all
  have bd: "k < shape0 r \<longrightarrow> getCurrRun c (cursor c (this_dataset rd) k) \<noteq> this_run rd"
    unfolding k_def by (intro impI attempted_boundary)
  show ?thesis
    unfolding Let_def k_def [symmetric]
    by (intro conjI call lo hi same bd)
qed

theorem next_returns_last_attempted_witness:
  "\<exists>rd' r' h'.
     WaveformReader_next synth (reader_at 1 two_runs) (sentinel_buffer 3 1 2) empty_heap
       = Inr (11, rd', r', h')
     \<and> this_dataset rd' = [(20, 2), (21, 2)]"
proof -
  have "1 \<le> shape0 (sentinel_buffer 3 1 2 :: int NumpyArray)"
    by simp
  from next_returns_last_attempted
    [OF sentinel_geometry this, where c = synth and rd = "reader_at 1 two_runs" and h = empty_heap]
  have "\<exists>rd' r' h'.
     WaveformReader_next synth (reader_at 1 two_runs) (sentinel_buffer 3 1 2) empty_heap
       = Inr (header_eventNumber synth (cursor synth two_runs (2 - 1)), rd', r', h')
     \<and> this_dataset rd' = cursor synth two_runs 2"
    by (simp add: Let_def two_runs_attempted)
  then show ?thesis
    by (simp add: two_runs_cursor)
qed

section \<open>A run boundary inside a batch\<close>



section \<open>The copied samples\<close>

text \<open>
  C3: the claim that exactly the first \<open>min(S, B)\<close> samples are copied fails when the
  sample axis has \<open>2^31\<close> entries or more, because the extent is narrowed to a 32-bit
  \<open>int\<close> before the minimum is taken. On the synthetic source, whose waveforms have two
  samples, a buffer with one event slot, one phi-sector and a sample axis of
  \<open>2147483648\<close> entries is returned with its first sample still at the sentinel, although
  \<open>min(S, B) = 2\<close> and the first sample of the waveform is 1000.
\<close>

theorem next_narrowed_sample_axis:
  "returned (WaveformReader_next synth (reader_at 1 two_runs)
               (sentinel_buffer 1 1 2147483648) empty_heap) = Some 10
   \<and> min (length (signal_of synth (useful synth two_runs) kTopRing 0 kHorizontal)) 2147483648 = 2
   \<and> to_elem synth (signal_of synth (useful synth two_runs) kTopRing 0 kHorizontal ! 0) = 1000
   \<and> elem_after (WaveformReader_next synth (reader_at 1 two_runs)
                   (sentinel_buffer 1 1 2147483648) empty_heap)
        (0, 0, ring_index kTopRing, pol_index kHorizontal, 0) = Some (- 1)"
proof -
  let ?r = "sentinel_buffer 1 1 2147483648 :: int NumpyArray"
  have N: "num_samples (synth_graph u ring phi pol) 2147483648 = - 2147483648" for u ring phi pol
    by (simp add: num_samples_def synth_graph_def)
  have chan: "channel_body synth u event phi ring pol (sentinel_buffer E P 2147483648, h)
              = Inr (sentinel_buffer E P 2147483648,
                     h\<lparr>fresh := fresh h + 2, live := live h - {fresh h..<fresh h + 2}\<rparr>)"
    for u event phi ring pol h E P
    using heap_release [of h]
    by (simp add: channel_body_def sample_loop_def new_obj_def N Let_def)
  have fill: "fill_event synth u 0 (?r, empty_heap) = Inr (?r, \<lparr>fresh = 12, live = {}\<rparr>)" for u
    by (simp add: fill_event_def chan empty_heap_def)
  have "WaveformReader_next synth (reader_at 1 two_runs) ?r empty_heap
        = Inr (10, reader_at 1 [(11, 1), (20, 2), (21, 2)], ?r, \<lparr>fresh = 12, live = {}\<rparr>)"
    using fill by (simp add: WaveformReader_next_def Let_def two_runs_def reader_at_def)
  then show ?thesis
    by (simp add: returned_def elem_after_def signal_of_def synth_graph_def two_runs_def)
qed

text \<open>
  Below \<open>2^31\<close> the narrowing is exact: every attempted event's channels receive the
  first \<open>min(S, B)\<close> samples of their waveform, as stored by the assignment.
\<close>

lemma next_copies_min_samples:
  assumes "geometry_ok r" and "shape4 r < 2 ^ 31"
  shows "\<exists>evno rd' r' h'.
           WaveformReader_next c rd r h = Inr (evno, rd', r', h')
           \<and> (\<forall>event phi ring pol s.
                 event < attempted c (this_run rd) (this_dataset rd) (shape0 r) \<and> phi < shape1 r
                 \<and> s < min (length (signal_of c (useful c (cursor c (this_dataset rd) event))
                                      ring phi pol)) (shape4 r)
                 \<longrightarrow> elems r' (event, phi, ring_index ring, pol_index pol, s)
                     = to_elem c (signal_of c (useful c (cursor c (this_dataset rd) event))
                                    ring phi pol ! s))"
proof (rule next_outcome [OF assms(1) refl refl, where h = h and c = c and rd = rd])
  fix rd' r' h'
  let ?k = "attempted c (this_run rd) (this_dataset rd) (shape0 r)"
  assume nx: "WaveformReader_next c rd r h
      = Inr (if ?k = 0 then 0
             else header_eventNumber c (cursor c (this_dataset rd) (?k - 1)), rd', r', h')"
    and el: "\<And>idx. elems r' idx =
           (if idx \<in> batch_cells c (this_dataset rd) (shape1 r) (shape4 r) 0 ?k
            then next_val c (this_dataset rd) idx else elems r idx)"
  have written: "elems r' (event, phi, ring_index ring, pol_index pol, s)
        = to_elem c (signal_of c (useful c (cursor c (this_dataset rd) event)) ring phi pol ! s)"
    if "event < ?k \<and> phi < shape1 r
        \<and> s < min (length (signal_of c (useful c (cursor c (this_dataset rd) event)) ring phi pol))
                  (shape4 r)"
    for event phi ring pol s
  proof -
    from that have "s < copied c (useful c (cursor c (this_dataset rd) event)) (shape4 r) ring phi pol"
      by (simp add: copied_small [OF assms(2)])
    with that have "(event, phi, ring_index ring, pol_index pol, s)
          \<in> batch_cells c (this_dataset rd) (shape1 r) (shape4 r) 0 ?k"
      unfolding batch_cells_iff by blast
    then show ?thesis
      by (simp add: el next_val_channel)
  qed
  have "WaveformReader_next c rd r h
      = Inr (if ?k = 0 then 0
             else header_eventNumber c (cursor c (this_dataset rd) (?k - 1)), rd', r', h')
      \<and> (\<forall>event phi ring pol s.
                 event < ?k \<and> phi < shape1 r
                 \<and> s < min (length (signal_of c (useful c (cursor c (this_dataset rd) event))
                                      ring phi pol)) (shape4 r)
                 \<longrightarrow> elems r' (event, phi, ring_index ring, pol_index pol, s)
                     = to_elem c (signal_of c (useful c (cursor c (this_dataset rd) event))
                                    ring phi pol ! s))"
    by (intro conjI allI impI nx written) simp_all
  then show ?thesis
    by - (rule exI, rule exI, rule exI, rule exI, assumption)
qed

section \<open>What a call leaves untouched\<close>

text \<open>
  C4: every buffer element outside the written region keeps its value. The written region
  consists of the index tuples whose event slot was attempted, whose phi-sector lies in the
  buffer, whose ring and polarisation indices are those of a ring and a polarisation, and
  whose sample index is below the minimum of the waveform's sample count and the size of
  the sample axis. In particular sample indices from that minimum on are not modified,
  no element of an event slot that was not reached is modified, and the shape of the
  buffer is the same after the call.
\<close>

theorem next_frame:
  assumes "geometry_ok r"
  shows "let d0 = this_dataset rd; k = attempted c (this_run rd) d0 (shape0 r) in
         \<exists>evno rd' r' h'.
           WaveformReader_next c rd r h = Inr (evno, rd', r', h')
           \<and> (shape0 r' = shape0 r \<and> shape1 r' = shape1 r \<and> shape2 r' = shape2 r
                \<and> shape3 r' = shape3 r \<and> shape4 r' = shape4 r)
           \<and> (\<forall>event phi rg pl s.
                 \<not> (event < k \<and> phi < shape1 r
                    \<and> (\<exists>ring pol. rg = ring_index ring \<and> pl = pol_index pol
                          \<and> s < min (length (signal_of c (useful c (cursor c d0 event)) ring phi pol))
                                    (shape4 r)))
                 \<longrightarrow> elems r' (event, phi, rg, pl, s) = elems r (event, phi, rg, pl, s))
           \<and> (\<forall>event phi ring pol s.
                 min (length (signal_of c (useful c (cursor c d0 event)) ring phi pol)) (shape4 r) \<le> s
                 \<longrightarrow> elems r' (event, phi, ring_index ring, pol_index pol, s)
                     = elems r (event, phi, ring_index ring, pol_index pol, s))
           \<and> (\<forall>event phi rg pl s.
                 k \<le> event \<longrightarrow> elems r' (event, phi, rg, pl, s) = elems r (event, phi, rg, pl, s))"
proof -
  define k where "k = attempted c (this_run rd) (this_dataset rd) (shape0 r)"
  have "\<exists>evno rd' r' h'.
           WaveformReader_next c rd r h = Inr (evno, rd', r', h')
           \<and> (shape0 r' = shape0 r \<and> shape1 r' = shape1 r \<and> shape2 r' = shape2 r
                \<and> shape3 r' = shape3 r \<and> shape4 r' = shape4 r)
           \<and> (\<forall>event phi rg pl s.
                 \<not> (event < k \<and> phi < shape1 r
                    \<and> (\<exists>ring pol. rg = ring_index ring \<and> pl = pol_index pol
                          \<and> s < min (length (signal_of c (useful c (cursor c (this_dataset rd) event))
                                               ring phi pol))
                                    (shape4 r)))
                 \<longrightarrow> elems r' (event, phi, rg, pl, s) = elems r (event, phi, rg, pl, s))
           \<and> (\<forall>event phi ring pol s.
                 min (length (signal_of c (useful c (cursor c (this_dataset rd) event)) ring phi pol))
                     (shape4 r) \<le> s
                 \<longrightarrow> elems r' (event, phi, ring_index ring, pol_index pol, s)
                     = elems r (event, phi, ring_index ring, pol_index pol, s))
           \<and> (\<forall>event phi rg pl s.
                 k \<le> event \<longrightarrow> elems r' (event, phi, rg, pl, s) = elems r (event, phi, rg, pl, s))"
  proof (rule next_outcome [OF assms k_def refl, where h = h])
    fix rd' r' h'
    assume nx: "WaveformReader_next c rd r h
        = Inr (if k = 0 then 0 else header_eventNumber c (cursor c (this_dataset rd) (k - 1)),
               rd', r', h')"
      and sh: "shape0 r' = shape0 r \<and> shape1 r' = shape1 r \<and> shape2 r' = shape2 r
         \<and> shape3 r' = shape3 r \<and> shape4 r' = shape4 r"
      and el: "\<And>idx. elems r' idx =
           (if idx \<in> batch_cells c (this_dataset rd) (shape1 r) (shape4 r) 0 k
            then next_val c (this_dataset rd) idx else elems r idx)"
    have below: "s < min (length (signal_of c u ring phi pol)) (shape4 r)"
      if "s < copied c u (shape4 r) ring phi pol" for s u ring phi pol
      using that copied_le [of c u "shape4 r" ring phi pol]
        copied_le_length [of c u "shape4 r" ring phi pol] by simp
    have general: "elems r' (event, phi, rg, pl, s) = elems r (event, phi, rg, pl, s)"
      if "\<not> (event < k \<and> phi < shape1 r
              \<and> (\<exists>ring pol. rg = ring_index ring \<and> pl = pol_index pol
                    \<and> s < min (length (signal_of c (useful c (cursor c (this_dataset rd) event))
                                         ring phi pol))
                              (shape4 r)))"
      for event phi rg pl s
    proof -
      have "(event, phi, rg, pl, s) \<notin> batch_cells c (this_dataset rd) (shape1 r) (shape4 r) 0 k"
        using that below unfolding batch_cells_iff by blast
      then show ?thesis by (simp add: el)
    qed
    have tail: "elems r' (event, phi, ring_index ring, pol_index pol, s)
                = elems r (event, phi, ring_index ring, pol_index pol, s)"
      if "min (length (signal_of c (useful c (cursor c (this_dataset rd) event)) ring phi pol))
              (shape4 r) \<le> s"
      for event phi ring pol s
    proof (rule general)
      from that show "\<not> (event < k \<and> phi < shape1 r
              \<and> (\<exists>ring' pol'. ring_index ring = ring_index ring' \<and> pol_index pol = pol_index pol'
                    \<and> s < min (length (signal_of c (useful c (cursor c (this_dataset rd) event))
                                         ring' phi pol'))
                              (shape4 r)))"
        by (auto simp: not_less ring_index_inj pol_index_inj)
    qed
    have unreached: "elems r' (event, phi, rg, pl, s) = elems r (event, phi, rg, pl, s)"
      if "k \<le> event" for event phi rg pl s
      by (rule general) (use that in simp)
    from sh have s0: "shape0 r' = shape0 r" and s1: "shape1 r' = shape1 r"
      and s2: "shape2 r' = shape2 r" and s3: "shape3 r' = shape3 r" and s4: "shape4 r' = shape4 r"
      by simp_all
    define ev where
      "ev = (if k = 0 then 0 else header_eventNumber c (cursor c (this_dataset rd) (k - 1)))"
    have call: "WaveformReader_next c rd r h = Inr (ev, rd', r', h')"
      using nx by (simp add: ev_def)
    have "WaveformReader_next c rd r h = Inr (ev, rd', r', h')
           \<and> (shape0 r' = shape0 r \<and> shape1 r' = shape1 r \<and> shape2 r' = shape2 r
                \<and> shape3 r' = shape3 r \<and> shape4 r' = shape4 r)
           \<and> (\<forall>event phi rg pl s.
                 \<not> (event < k \<and> phi < shape1 r
                    \<and> (\<exists>ring pol. rg = ring_index ring \<and> pl = pol_index pol
                          \<and> s < min (length (signal_of c (useful c (cursor c (this_dataset rd) event))
                                               ring phi pol))
                                    (shape4 r)))
                 \<longrightarrow> elems r' (event, phi, rg, pl, s) = elems r (event, phi, rg, pl, s))
           \<and> (\<forall>event phi ring pol s.
                 min (length (signal_of c (useful c (cursor c (this_dataset rd) event)) ring phi pol))
                     (shape4 r) \<le> s
                 \<longrightarrow> elems r' (event, phi, ring_index ring, pol_index pol, s)
                     = elems r (event, phi, ring_index ring, pol_index pol, s))
           \<and> (\<forall>event phi rg pl s.
                 k \<le> event \<longrightarrow> elems r' (event, phi, rg, pl, s) = elems r (event, phi, rg, pl, s))"
      by (intro conjI allI impI call s0 s1 s2 s3 s4 general tail unreached)
    then show ?thesis
      by - (rule exI, rule exI, rule exI, rule exI, assumption)
  qed
  then show ?thesis
    unfolding Let_def k_def .
qed

theorem next_frame_witness:
  "\<exists>evno rd' r' h'.
     WaveformReader_next synth (reader_at 1 two_runs) (sentinel_buffer 3 1 3) empty_heap
       = Inr (evno, rd', r', h')
     \<and> shape0 r' = 3 \<and> shape1 r' = 1 \<and> shape2 r' = 3 \<and> shape3 r' = 2 \<and> shape4 r' = 3
     \<and> elems r' (0, 0, 0, 0, 2) = - 1
     \<and> elems r' (2, 0, 0, 0, 0) = - 1"
proof -
  from next_frame [OF sentinel_geometry, where c = synth and rd = "reader_at 1 two_runs"
      and h = empty_heap and E1 = 3 and P1 = 1 and B1 = 3]
  obtain evno rd' r' h' where
    nx: "WaveformReader_next synth (reader_at 1 two_runs) (sentinel_buffer 3 1 3) empty_heap
          = Inr (evno, rd', r', h')"
    and sh: "shape0 r' = 3 \<and> shape1 r' = 1 \<and> shape2 r' = 3 \<and> shape3 r' = 2 \<and> shape4 r' = 3"
    and tail: "\<forall>event phi ring pol s.
         min (length (signal_of synth (useful synth (cursor synth two_runs event)) ring phi pol)) 3 \<le> s
         \<longrightarrow> elems r' (event, phi, ring_index ring, pol_index pol, s) = - 1"
    and unreached: "\<forall>event phi rg pl s. 2 \<le> event \<longrightarrow> elems r' (event, phi, rg, pl, s) = - 1"
    unfolding Let_def by (simp add: two_runs_attempted) blast
  have "elems r' (0, 0, ring_index kTopRing, pol_index kHorizontal, 2) = - 1"
    using tail [rule_format, of 0 kTopRing 0 kHorizontal 2]
    by (simp add: signal_of_def synth_graph_def)
  moreover have "elems r' (2, 0, 0, 0, 0) = - 1"
    using unreached by simp
  ultimately show ?thesis
    using nx sh by simp
qed

section \<open>The order of rings and polarisations in the buffer\<close>

text \<open>
  C5: for every attempted event and every phi-sector of the buffer, the samples written
  at ring-axis indices 0, 1, 2 are those of the top, middle and bottom ring, and the
  samples written at polarisation-axis indices 0, 1 are those of the horizontal and the
  vertical polarisation. The two lists iterated over are literals of \<open>fill_event\<close>;
  nothing the caller passes changes them.
\<close>

theorem next_channel_order:
  assumes "geometry_ok r"
  shows "let d0 = this_dataset rd; k = attempted c (this_run rd) d0 (shape0 r); B = shape4 r in
         \<exists>evno rd' r' h'.
           WaveformReader_next c rd r h = Inr (evno, rd', r', h')
           \<and> (\<forall>event phi s u.
                 event < k \<and> phi < shape1 r \<and> u = useful c (cursor c d0 event) \<longrightarrow>
                   (s < copied c u B kTopRing phi kHorizontal \<longrightarrow>
                      elems r' (event, phi, 0, 0, s)
                        = to_elem c (signal_of c u kTopRing phi kHorizontal ! s))
                 \<and> (s < copied c u B kTopRing phi kVertical \<longrightarrow>
                      elems r' (event, phi, 0, 1, s)
                        = to_elem c (signal_of c u kTopRing phi kVertical ! s))
                 \<and> (s < copied c u B kMiddleRing phi kHorizontal \<longrightarrow>
                      elems r' (event, phi, 1, 0, s)
                        = to_elem c (signal_of c u kMiddleRing phi kHorizontal ! s))
                 \<and> (s < copied c u B kMiddleRing phi kVertical \<longrightarrow>
                      elems r' (event, phi, 1, 1, s)
                        = to_elem c (signal_of c u kMiddleRing phi kVertical ! s))
                 \<and> (s < copied c u B kBottomRing phi kHorizontal \<longrightarrow>
                      elems r' (event, phi, 2, 0, s)
                        = to_elem c (signal_of c u kBottomRing phi kHorizontal ! s))
                 \<and> (s < copied c u B kBottomRing phi kVertical \<longrightarrow>
                      elems r' (event, phi, 2, 1, s)
                        = to_elem c (signal_of c u kBottomRing phi kVertical ! s)))"
proof -
  define k where "k = attempted c (this_run rd) (this_dataset rd) (shape0 r)"
  have "\<exists>evno rd' r' h'.
           WaveformReader_next c rd r h = Inr (evno, rd', r', h')
           \<and> (\<forall>event phi s u.
                 event < k \<and> phi < shape1 r \<and> u = useful c (cursor c (this_dataset rd) event) \<longrightarrow>
                   (s < copied c u (shape4 r) kTopRing phi kHorizontal \<longrightarrow>
                      elems r' (event, phi, 0, 0, s)
                        = to_elem c (signal_of c u kTopRing phi kHorizontal ! s))
                 \<and> (s < copied c u (shape4 r) kTopRing phi kVertical \<longrightarrow>
                      elems r' (event, phi, 0, 1, s)
                        = to_elem c (signal_of c u kTopRing phi kVertical ! s))
                 \<and> (s < copied c u (shape4 r) kMiddleRing phi kHorizontal \<longrightarrow>
                      elems r' (event, phi, 1, 0, s)
                        = to_elem c (signal_of c u kMiddleRing phi kHorizontal ! s))
                 \<and> (s < copied c u (shape4 r) kMiddleRing phi kVertical \<longrightarrow>
                      elems r' (event, phi, 1, 1, s)
                        = to_elem c (signal_of c u kMiddleRing phi kVertical ! s))
                 \<and> (s < copied c u (shape4 r) kBottomRing phi kHorizontal \<longrightarrow>
                      elems r' (event, phi, 2, 0, s)
                        = to_elem c (signal_of c u kBottomRing phi kHorizontal ! s))
                 \<and> (s < copied c u (shape4 r) kBottomRing phi kVertical \<longrightarrow>
                      elems r' (event, phi, 2, 1, s)
                        = to_elem c (signal_of c u kBottomRing phi kVertical ! s)))"
  proof (rule next_outcome [OF assms k_def refl, where h = h])
    fix rd' r' h'
    assume nx: "WaveformReader_next c rd r h
        = Inr (if k = 0 then 0 else header_eventNumber c (cursor c (this_dataset rd) (k - 1)),
               rd', r', h')"
      and el: "\<And>idx. elems r' idx =
           (if idx \<in> batch_cells c (this_dataset rd) (shape1 r) (shape4 r) 0 k
            then next_val c (this_dataset rd) idx else elems r idx)"
    define ev where
      "ev = (if k = 0 then 0 else header_eventNumber c (cursor c (this_dataset rd) (k - 1)))"
    have call: "WaveformReader_next c rd r h = Inr (ev, rd', r', h')"
      using nx by (simp add: ev_def)
    have written: "elems r' (event, phi, ring_index ring, pol_index pol, s)
          = to_elem c (signal_of c (useful c (cursor c (this_dataset rd) event)) ring phi pol ! s)"
      if "event < k" "phi < shape1 r"
        "s < copied c (useful c (cursor c (this_dataset rd) event)) (shape4 r) ring phi pol"
      for event phi ring pol s
    proof -
      have "(event, phi, ring_index ring, pol_index pol, s)
            \<in> batch_cells c (this_dataset rd) (shape1 r) (shape4 r) 0 k"
        unfolding batch_cells_iff using that by blast
      then show ?thesis
        by (simp add: el next_val_channel)
    qed
    have "WaveformReader_next c rd r h = Inr (ev, rd', r', h')
           \<and> (\<forall>event phi s u.
                 event < k \<and> phi < shape1 r \<and> u = useful c (cursor c (this_dataset rd) event) \<longrightarrow>
                   (s < copied c u (shape4 r) kTopRing phi kHorizontal \<longrightarrow>
                      elems r' (event, phi, 0, 0, s)
                        = to_elem c (signal_of c u kTopRing phi kHorizontal ! s))
                 \<and> (s < copied c u (shape4 r) kTopRing phi kVertical \<longrightarrow>
                      elems r' (event, phi, 0, 1, s)
                        = to_elem c (signal_of c u kTopRing phi kVertical ! s))
                 \<and> (s < copied c u (shape4 r) kMiddleRing phi kHorizontal \<longrightarrow>
                      elems r' (event, phi, 1, 0, s)
                        = to_elem c (signal_of c u kMiddleRing phi kHorizontal ! s))
                 \<and> (s < copied c u (shape4 r) kMiddleRing phi kVertical \<longrightarrow>
                      elems r' (event, phi, 1, 1, s)
                        = to_elem c (signal_of c u kMiddleRing phi kVertical ! s))
                 \<and> (s < copied c u (shape4 r) kBottomRing phi kHorizontal \<longrightarrow>
                      elems r' (event, phi, 2, 0, s)
                        = to_elem c (signal_of c u kBottomRing phi kHorizontal ! s))
                 \<and> (s < copied c u (shape4 r) kBottomRing phi kVertical \<longrightarrow>
                      elems r' (event, phi, 2, 1, s)
                        = to_elem c (signal_of c u kBottomRing phi kVertical ! s)))"
      using written [where ring = kTopRing and pol = kHorizontal]
        written [where ring = kTopRing and pol = kVertical]
        written [where ring = kMiddleRing and pol = kHorizontal]
        written [where ring = kMiddleRing and pol = kVertical]
        written [where ring = kBottomRing and pol = kHorizontal]
        written [where ring = kBottomRing and pol = kVertical]
      by (simp add: call)
    then show ?thesis
      by - (rule exI, rule exI, rule exI, rule exI, assumption)
  qed
  then show ?thesis
    unfolding Let_def k_def .
qed

theorem next_channel_order_witness:
  "\<exists>evno rd' r' h'.
     WaveformReader_next synth (reader_at 1 two_runs) (sentinel_buffer 3 1 2) empty_heap
       = Inr (evno, rd', r', h')
     \<and> elems r' (0, 0, 0, 0, 0) = 1000 \<and> elems r' (0, 0, 0, 1, 0) = 1001
     \<and> elems r' (0, 0, 1, 0, 0) = 1010 \<and> elems r' (0, 0, 1, 1, 0) = 1011
     \<and> elems r' (0, 0, 2, 0, 0) = 1020 \<and> elems r' (0, 0, 2, 1, 0) = 1021"
proof -
  have n: "copied synth u 2 ring phi pol = 2" for u ring phi pol
    by (simp add: copied_def num_samples_def signal_of_def synth_graph_def)
  from next_channel_order [OF sentinel_geometry, where c = synth and rd = "reader_at 1 two_runs"
      and h = empty_heap and E1 = 3 and P1 = 1 and B1 = 2]
  obtain evno rd' r' h' where
    nx: "WaveformReader_next synth (reader_at 1 two_runs) (sentinel_buffer 3 1 2) empty_heap
          = Inr (evno, rd', r', h')"
    and order: "\<forall>event phi s u.
         event < 2 \<and> phi < 1 \<and> u = useful synth (cursor synth two_runs event) \<longrightarrow>
           (s < 2 \<longrightarrow> elems r' (event, phi, 0, 0, s)
                        = to_elem synth (signal_of synth u kTopRing phi kHorizontal ! s))
         \<and> (s < 2 \<longrightarrow> elems r' (event, phi, 0, 1, s)
                        = to_elem synth (signal_of synth u kTopRing phi kVertical ! s))
         \<and> (s < 2 \<longrightarrow> elems r' (event, phi, 1, 0, s)
                        = to_elem synth (signal_of synth u kMiddleRing phi kHorizontal ! s))
         \<and> (s < 2 \<longrightarrow> elems r' (event, phi, 1, 1, s)
                        = to_elem synth (signal_of synth u kMiddleRing phi kVertical ! s))
         \<and> (s < 2 \<longrightarrow> elems r' (event, phi, 2, 0, s)
                        = to_elem synth (signal_of synth u kBottomRing phi kHorizontal ! s))
         \<and> (s < 2 \<longrightarrow> elems r' (event, phi, 2, 1, s)
                        = to_elem synth (signal_of synth u kBottomRing phi kVertical ! s))"
    unfolding Let_def sentinel_buffer_simps reader_at_simps two_runs_attempted n
    by (elim exE conjE)
  have "cursor synth two_runs 0 = two_runs"
    by simp
  with order [rule_format, of 0 0 "synth_eventNumber two_runs" 0] nx show ?thesis
    by (simp add: signal_of_def synth_graph_def two_runs_def)
qed

section \<open>A batch that ends with the run\<close>

text \<open>
  C6, as stated, fails: the check for a changed run follows every advance, also the one
  after the last slot. On the synthetic source with two events left in run 1 and run 2
  behind them, a call with two event slots returns 11, the number of the last event of
  run 1, but it leaves through the early return: the stored run is 2 afterwards.
\<close>

theorem next_exact_fit_counterexample:
  "synth_run two_runs = 1 \<and> synth_run (synth_next two_runs) = 1
   \<and> synth_run (synth_next (synth_next two_runs)) = 2
   \<and> returned (WaveformReader_next synth (reader_at 1 two_runs) (sentinel_buffer 2 1 2) empty_heap)
       = Some 11
   \<and> run_after (WaveformReader_next synth (reader_at 1 two_runs) (sentinel_buffer 2 1 2) empty_heap)
       = Some 2"
proof -
  have k: "2 = attempted synth (this_run (reader_at 1 two_runs))
                 (this_dataset (reader_at 1 two_runs))
                 (shape0 (sentinel_buffer 2 1 2 :: int NumpyArray))"
    by (simp add: two_runs_attempted)
  have "returned (WaveformReader_next synth (reader_at 1 two_runs) (sentinel_buffer 2 1 2) empty_heap)
          = Some 11
        \<and> run_after (WaveformReader_next synth (reader_at 1 two_runs) (sentinel_buffer 2 1 2)
                       empty_heap) = Some 2"
  proof (rule next_outcome [OF sentinel_geometry k refl, where h = empty_heap])
    fix rd' :: "synth_dataset WaveformReader" and r' :: "int NumpyArray" and h'
    assume "WaveformReader_next synth (reader_at 1 two_runs) (sentinel_buffer 2 1 2) empty_heap
        = Inr (if (2::nat) = 0 then 0
               else header_eventNumber synth
                      (cursor synth (this_dataset (reader_at 1 two_runs)) (2 - 1)),
               rd', r', h')"
      and "this_run rd' = (if (2::nat) = 0 then this_run (reader_at 1 two_runs)
                           else getCurrRun synth
                                  (cursor synth (this_dataset (reader_at 1 two_runs)) 2))"
    then show ?thesis
      by (simp add: returned_def run_after_def two_runs_cursor)
  qed
  then show ?thesis
    by (simp add: two_runs_def)
qed

text \<open>
  C6, amended: if the buffer has as many event slots as there are events left in the
  stored run, \<open>next\<close> attempts all of them and returns the event number of the last
  event of the run. The stored run afterwards is the run that the source reports after
  the advance past that event: it is unchanged when the source still reports the stored
  run, and it is the new run, set on the early-return path after the last slot, when the
  advance has entered another run.
\<close>

theorem next_exact_fit:
  assumes "geometry_ok r" and "1 \<le> shape0 r"
    and "\<forall>i < shape0 r. getCurrRun c (cursor c (this_dataset rd) i) = this_run rd"
  shows "\<exists>rd' r' h'.
           WaveformReader_next c rd r h
             = Inr (header_eventNumber c (cursor c (this_dataset rd) (shape0 r - 1)), rd', r', h')
           \<and> this_dataset rd' = cursor c (this_dataset rd) (shape0 r)
           \<and> this_run rd' = getCurrRun c (cursor c (this_dataset rd) (shape0 r))
           \<and> (getCurrRun c (cursor c (this_dataset rd) (shape0 r)) = this_run rd
                \<longrightarrow> this_run rd' = this_run rd)
           \<and> (getCurrRun c (cursor c (this_dataset rd) (shape0 r)) \<noteq> this_run rd
                \<longrightarrow> this_run rd' \<noteq> this_run rd)"
proof -
  have k: "shape0 r = attempted c (this_run rd) (this_dataset rd) (shape0 r)"
    using assms(3) by (intro attempted_full [symmetric]) simp
  show ?thesis
  proof (rule next_outcome [OF assms(1) k refl, where h = h])
    fix rd' r' h'
    assume nx: "WaveformReader_next c rd r h
        = Inr (if shape0 r = 0 then 0
               else header_eventNumber c (cursor c (this_dataset rd) (shape0 r - 1)), rd', r', h')"
      and ds: "this_dataset rd' = cursor c (this_dataset rd) (shape0 r)"
      and run: "this_run rd' = (if shape0 r = 0 then this_run rd
                                else getCurrRun c (cursor c (this_dataset rd) (shape0 r)))"
    have call: "WaveformReader_next c rd r h
        = Inr (header_eventNumber c (cursor c (this_dataset rd) (shape0 r - 1)), rd', r', h')"
      using nx assms(2) by simp
    have run': "this_run rd' = getCurrRun c (cursor c (this_dataset rd) (shape0 r))"
      using run assms(2) by simp
    have "WaveformReader_next c rd r h
             = Inr (header_eventNumber c (cursor c (this_dataset rd) (shape0 r - 1)), rd', r', h')
           \<and> this_dataset rd' = cursor c (this_dataset rd) (shape0 r)
           \<and> this_run rd' = getCurrRun c (cursor c (this_dataset rd) (shape0 r))
           \<and> (getCurrRun c (cursor c (this_dataset rd) (shape0 r)) = this_run rd
                \<longrightarrow> this_run rd' = this_run rd)
           \<and> (getCurrRun c (cursor c (this_dataset rd) (shape0 r)) \<noteq> this_run rd
                \<longrightarrow> this_run rd' \<noteq> this_run rd)"
      using call ds run' by simp
    then show ?thesis
      by - (rule exI, rule exI, rule exI, assumption)
  qed
qed

theorem next_exact_fit_witness:
  "\<exists>rd' r' h'.
     WaveformReader_next synth (reader_at 1 two_runs) (sentinel_buffer 2 1 2) empty_heap
       = Inr (11, rd', r', h')
     \<and> this_dataset rd' = [(20, 2), (21, 2)]
     \<and> this_run rd' = 2"
proof -
  have e: "1 \<le> shape0 (sentinel_buffer 2 1 2 :: int NumpyArray)"
    by simp
  have "getCurrRun synth (cursor synth (this_dataset (reader_at 1 two_runs)) i)
          = this_run (reader_at 1 two_runs)" if "i < 2" for i
  proof -
    from that have "i = 0 \<or> i = Suc 0" by auto
    then show ?thesis
      using two_runs_cursor by (auto simp: two_runs_def)
  qed
  then have "\<forall>i < shape0 (sentinel_buffer 2 1 2 :: int NumpyArray).
      getCurrRun synth (cursor synth (this_dataset (reader_at 1 two_runs)) i)
        = this_run (reader_at 1 two_runs)"
    by simp
  from next_exact_fit [OF sentinel_geometry e this, where h = empty_heap]
  show ?thesis
    by (auto simp: two_runs_cursor)
qed

section \<open>Calling with one event slot at a time\<close>

text \<open>
  C7: repeated calls with buffers of one event slot return the event numbers of the
  events in the order of the source, one per call, none skipped and none repeated: the
  \<open>j\<close>-th call returns the event number found \<open>j\<close> advances from the start, and after
  the calls the cursor has advanced once per call. For a buffer of any size a call leaves
  the cursor advanced by the number of events it attempted.
\<close>

theorem next_calls_in_order:
  "((\<forall>b \<in> set bufs. geometry_ok b \<and> shape0 b = 1) \<longrightarrow>
      (\<exists>rd' bufs' h'.
         next_calls c rd bufs h
           = Inr (map (\<lambda>j. header_eventNumber c (cursor c (this_dataset rd) j)) [0..<length bufs],
                  rd', bufs', h')
         \<and> this_dataset rd' = cursor c (this_dataset rd) (length bufs)))
   \<and> (geometry_ok r \<longrightarrow>
      (\<exists>evno rd' r' h'.
         WaveformReader_next c rd r h = Inr (evno, rd', r', h')
         \<and> this_dataset rd'
             = cursor c (this_dataset rd)
                 (attempted c (this_run rd) (this_dataset rd) (shape0 r))))"
proof (intro conjI impI)
  assume "\<forall>b \<in> set bufs. geometry_ok b \<and> shape0 b = 1"
  then show "\<exists>rd' bufs' h'.
         next_calls c rd bufs h
           = Inr (map (\<lambda>j. header_eventNumber c (cursor c (this_dataset rd) j)) [0..<length bufs],
                  rd', bufs', h')
         \<and> this_dataset rd' = cursor c (this_dataset rd) (length bufs)"
  proof (induction bufs arbitrary: rd h)
    case Nil
    then show ?case by simp
  next
    case (Cons b bufs)
    then have g: "geometry_ok b" and one: "shape0 b = 1"
      and rest: "\<forall>b \<in> set bufs. geometry_ok b \<and> shape0 b = 1"
      by simp_all
    have k: "1 = attempted c (this_run rd) (this_dataset rd) (shape0 b)"
      by (simp add: one)
    show ?case
    proof (rule next_outcome [OF g k refl, where h = h])
      fix rd1 r1 h1
      assume nx: "WaveformReader_next c rd b h
          = Inr (if (1::nat) = 0 then 0
                 else header_eventNumber c (cursor c (this_dataset rd) (1 - 1)), rd1, r1, h1)"
        and ds: "this_dataset rd1 = cursor c (this_dataset rd) 1"
      from Cons.IH [OF rest, of rd1 h1] obtain rd2 bufs2 h2 where
        calls: "next_calls c rd1 bufs h1
           = Inr (map (\<lambda>j. header_eventNumber c (cursor c (this_dataset rd1) j)) [0..<length bufs],
                  rd2, bufs2, h2)"
        and ds2: "this_dataset rd2 = cursor c (this_dataset rd1) (length bufs)"
        by (elim exE conjE)
      have shift: "cursor c (this_dataset rd1) j = cursor c (this_dataset rd) (Suc j)" for j
        using ds by (simp add: cursor_def funpow_swap1)
      have "map (\<lambda>j. header_eventNumber c (cursor c (this_dataset rd) j)) [0..<length (b # bufs)]
            = header_eventNumber c (this_dataset rd)
              # map (\<lambda>j. header_eventNumber c (cursor c (this_dataset rd1) j)) [0..<length bufs]"
        by (simp add: upt_conv_Cons shift map_Suc_upt [symmetric] del: upt_Suc)
      with nx calls ds2 have
        "next_calls c rd (b # bufs) h
           = Inr (map (\<lambda>j. header_eventNumber c (cursor c (this_dataset rd) j))
                    [0..<length (b # bufs)], rd2, r1 # bufs2, h2)
         \<and> this_dataset rd2 = cursor c (this_dataset rd) (length (b # bufs))"
        by (simp add: shift)
      then show ?thesis
        by - (rule exI, rule exI, rule exI, assumption)
    qed
  qed
next
  assume g: "geometry_ok r"
  show "\<exists>evno rd' r' h'.
         WaveformReader_next c rd r h = Inr (evno, rd', r', h')
         \<and> this_dataset rd'
             = cursor c (this_dataset rd)
                 (attempted c (this_run rd) (this_dataset rd) (shape0 r))"
  proof (rule next_outcome [OF g refl refl, where h = h and c = c and rd = rd])
    fix rd' r' h'
    assume "WaveformReader_next c rd r h
        = Inr (if attempted c (this_run rd) (this_dataset rd) (shape0 r) = 0 then 0
               else header_eventNumber c (cursor c (this_dataset rd)
                      (attempted c (this_run rd) (this_dataset rd) (shape0 r) - 1)), rd', r', h')"
      and "this_dataset rd' = cursor c (this_dataset rd)
             (attempted c (this_run rd) (this_dataset rd) (shape0 r))"
    then have "WaveformReader_next c rd r h
        = Inr (if attempted c (this_run rd) (this_dataset rd) (shape0 r) = 0 then 0
               else header_eventNumber c (cursor c (this_dataset rd)
                      (attempted c (this_run rd) (this_dataset rd) (shape0 r) - 1)), rd', r', h')
        \<and> this_dataset rd' = cursor c (this_dataset rd)
             (attempted c (this_run rd) (this_dataset rd) (shape0 r))"
      by (intro conjI)
    then show ?thesis
      by - (rule exI, rule exI, rule exI, rule exI, assumption)
  qed
qed

theorem next_calls_in_order_witness:
  "\<exists>rd' bufs' h'.
     next_calls synth (reader_at 1 two_runs)
       [sentinel_buffer 1 1 2, sentinel_buffer 1 1 2, sentinel_buffer 1 1 2, sentinel_buffer 1 1 2]
       empty_heap
       = Inr ([10, 11, 20, 21], rd', bufs', h')"
proof -
  let ?bufs = "[sentinel_buffer 1 1 2, sentinel_buffer 1 1 2, sentinel_buffer 1 1 2,
                sentinel_buffer 1 1 2 :: int NumpyArray]"
  have "\<forall>b \<in> set ?bufs. geometry_ok b \<and> shape0 b = 1"
    by simp
  with next_calls_in_order [where bufs = ?bufs and c = synth and rd = "reader_at 1 two_runs"
      and h = empty_heap and r = "sentinel_buffer 1 1 2"]
  have "\<exists>rd' bufs' h'.
         next_calls synth (reader_at 1 two_runs) ?bufs empty_heap
           = Inr (map (\<lambda>j. header_eventNumber synth
                              (cursor synth (this_dataset (reader_at 1 two_runs)) j))
                    [0..<length ?bufs], rd', bufs', h')
         \<and> this_dataset rd' = cursor synth (this_dataset (reader_at 1 two_runs)) (length ?bufs)"
    by blast
  moreover have "map (\<lambda>j. header_eventNumber synth
                              (cursor synth (this_dataset (reader_at 1 two_runs)) j))
                    [0..<length ?bufs] = [10, 11, 20, 21]"
    by (simp add: cursor_def two_runs_def upt_rec [of 0] upt_rec [of 1] upt_rec [of 2]
        upt_rec [of 3] numeral_2_eq_2 numeral_3_eq_3)
  ultimately show ?thesis
    by auto
qed

section \<open>The stored run\<close>

text \<open>
  C8: the constructor sets the stored run to its run argument (converted to
  \<open>unsigned int\<close>). A call of \<open>next\<close> on a buffer without event slots leaves it
  unchanged; after a call that attempted at least one event it is the run that the source
  reports after the most recent advance, the advance being the attempt to read the next
  event. During the call it changes exactly when the source reports, after an advance, a
  run other than the stored one, and it is then set to that run: the advances before the
  last one all reported the stored run, and the stored run differs after the call exactly
  when the run reported after the last advance differs from it.
\<close>

theorem next_stored_run:
  "this_run (WaveformReader_init c run) = word_of_int run
   \<and> (0 \<le> run \<and> run < 2 ^ 31 \<longrightarrow> uint (this_run (WaveformReader_init c run)) = run)
   \<and> (geometry_ok r \<longrightarrow>
        (\<exists>evno rd' r' h'.
           WaveformReader_next c rd r h = Inr (evno, rd', r', h')
           \<and> (shape0 r = 0 \<longrightarrow> this_run rd' = this_run rd)
           \<and> (1 \<le> shape0 r \<longrightarrow> this_run rd' = getCurrRun c (this_dataset rd'))
           \<and> (\<forall>i. 1 \<le> i \<and> i < attempted c (this_run rd) (this_dataset rd) (shape0 r)
                  \<longrightarrow> getCurrRun c (cursor c (this_dataset rd) i) = this_run rd)
           \<and> (this_run rd' \<noteq> this_run rd
                \<longleftrightarrow> 1 \<le> shape0 r \<and> getCurrRun c (this_dataset rd') \<noteq> this_run rd)))"
proof (intro conjI impI)
  show "this_run (WaveformReader_init c run) = word_of_int run"
    by (simp add: WaveformReader_init_def)
next
  assume "0 \<le> run \<and> run < 2 ^ 31"
  then have "take_bit 32 run = run"
    by (intro take_bit_int_eq_self) simp_all
  then show "uint (this_run (WaveformReader_init c run)) = run"
    by (simp add: WaveformReader_init_def uint_word_of_int_eq)
next
  assume g: "geometry_ok r"
  define k where "k = attempted c (this_run rd) (this_dataset rd) (shape0 r)"
  have k0: "k = 0 \<longleftrightarrow> shape0 r = 0"
    using attempted_pos [of "shape0 r" c "this_run rd" "this_dataset rd"]
    by (cases "shape0 r") (simp_all add: k_def)
  have same: "\<forall>i. 1 \<le> i \<and> i < k \<longrightarrow> getCurrRun c (cursor c (this_dataset rd) i) = this_run rd"
    unfolding k_def
    by (intro allI impI attempted_same_run [of _ c "this_run rd" "this_dataset rd" "shape0 r"])
       simp_all
  have "\<exists>evno rd' r' h'.
           WaveformReader_next c rd r h = Inr (evno, rd', r', h')
           \<and> (shape0 r = 0 \<longrightarrow> this_run rd' = this_run rd)
           \<and> (1 \<le> shape0 r \<longrightarrow> this_run rd' = getCurrRun c (this_dataset rd'))
           \<and> (\<forall>i. 1 \<le> i \<and> i < k \<longrightarrow> getCurrRun c (cursor c (this_dataset rd) i) = this_run rd)
           \<and> (this_run rd' \<noteq> this_run rd
                \<longleftrightarrow> 1 \<le> shape0 r \<and> getCurrRun c (this_dataset rd') \<noteq> this_run rd)"
  proof (rule next_outcome [OF g k_def refl, where h = h])
    fix rd' r' h'
    assume nx: "WaveformReader_next c rd r h
        = Inr (if k = 0 then 0 else header_eventNumber c (cursor c (this_dataset rd) (k - 1)),
               rd', r', h')"
      and ds: "this_dataset rd' = cursor c (this_dataset rd) k"
      and run: "this_run rd' = (if k = 0 then this_run rd
                                else getCurrRun c (cursor c (this_dataset rd) k))"
    define ev where
      "ev = (if k = 0 then 0 else header_eventNumber c (cursor c (this_dataset rd) (k - 1)))"
    have call: "WaveformReader_next c rd r h = Inr (ev, rd', r', h')"
      using nx by (simp add: ev_def)
    have a: "shape0 r = 0 \<longrightarrow> this_run rd' = this_run rd"
      using run k0 by simp
    have b: "1 \<le> shape0 r \<longrightarrow> this_run rd' = getCurrRun c (this_dataset rd')"
      using run ds k0 by auto
    have d: "this_run rd' \<noteq> this_run rd
                \<longleftrightarrow> 1 \<le> shape0 r \<and> getCurrRun c (this_dataset rd') \<noteq> this_run rd"
      using run ds k0 by auto
    have "WaveformReader_next c rd r h = Inr (ev, rd', r', h')
           \<and> (shape0 r = 0 \<longrightarrow> this_run rd' = this_run rd)
           \<and> (1 \<le> shape0 r \<longrightarrow> this_run rd' = getCurrRun c (this_dataset rd'))
           \<and> (\<forall>i. 1 \<le> i \<and> i < k \<longrightarrow> getCurrRun c (cursor c (this_dataset rd) i) = this_run rd)
           \<and> (this_run rd' \<noteq> this_run rd
                \<longleftrightarrow> 1 \<le> shape0 r \<and> getCurrRun c (this_dataset rd') \<noteq> this_run rd)"
      by (intro conjI call a b same d)
    then show ?thesis
      by - (rule exI, rule exI, rule exI, rule exI, assumption)
  qed
  then show "\<exists>evno rd' r' h'.
           WaveformReader_next c rd r h = Inr (evno, rd', r', h')
           \<and> (shape0 r = 0 \<longrightarrow> this_run rd' = this_run rd)
           \<and> (1 \<le> shape0 r \<longrightarrow> this_run rd' = getCurrRun c (this_dataset rd'))
           \<and> (\<forall>i. 1 \<le> i \<and> i < attempted c (this_run rd) (this_dataset rd) (shape0 r)
                  \<longrightarrow> getCurrRun c (cursor c (this_dataset rd) i) = this_run rd)
           \<and> (this_run rd' \<noteq> this_run rd
                \<longleftrightarrow> 1 \<le> shape0 r \<and> getCurrRun c (this_dataset rd') \<noteq> this_run rd)"
    unfolding k_def .
qed

theorem next_stored_run_witness:
  "uint (this_run (WaveformReader_init synth 7)) = 7
   \<and> (\<exists>evno rd' r' h'.
         WaveformReader_next synth (reader_at 1 two_runs) (sentinel_buffer 3 1 2) empty_heap
           = Inr (evno, rd', r', h')
         \<and> this_run rd' = synth_run (this_dataset rd')
         \<and> (this_run rd' \<noteq> 1 \<longleftrightarrow> synth_run (this_dataset rd') \<noteq> 1))"
proof -
  have "(0::int) \<le> 7 \<and> (7::int) < 2 ^ 31"
    by simp
  moreover have "1 \<le> shape0 (sentinel_buffer 3 1 2 :: int NumpyArray)"
    by simp
  moreover note sentinel_geometry [of 3 1 2]
  ultimately show ?thesis
    using next_stored_run [where c = synth and run = 7 and rd = "reader_at 1 two_runs"
        and r = "sentinel_buffer 3 1 2" and h = empty_heap]
    by auto
qed

section \<open>Per-channel temporaries are released\<close>

text \<open>
  C9: the raw trace and the resampled waveform that the body of the channel loop acquires
  are both deleted before the body ends, so that the live objects after each channel
  iteration are those that were live before it, two identifiers having been handed out.
  The same holds across a whole call of \<open>next\<close>, on the full-batch path and on the
  early-return path, and across any sequence of calls: no per-channel object stays live.
\<close>

theorem next_releases_temporaries:
  assumes "heap_ok h"
  shows "(\<forall>u event phi ring pol.
            geometry_ok r \<and> event < shape0 r \<and> phi < shape1 r \<longrightarrow>
              (\<exists>r' h'. channel_body c u event phi ring pol (r, h) = Inr (r', h')
                 \<and> fresh h' = fresh h + 2 \<and> live h' = live h \<and> heap_ok h'))
       \<and> (geometry_ok r \<longrightarrow>
            (\<exists>evno rd' r' h'.
               WaveformReader_next c rd r h = Inr (evno, rd', r', h')
               \<and> live h' = live h \<and> heap_ok h'))
       \<and> ((\<forall>b \<in> set bufs. geometry_ok b) \<longrightarrow>
            (\<exists>evnos rd' bufs' h'.
               next_calls c rd bufs h = Inr (evnos, rd', bufs', h')
               \<and> live h' = live h \<and> heap_ok h'))"
proof (intro conjI allI impI)
  fix u event phi ring pol
  assume a: "geometry_ok r \<and> event < shape0 r \<and> phi < shape1 r"
  then have ok: "slot_ok event (shape1 r) (shape4 r) (r, h)"
    by (simp add: slot_ok_def geometry_ok_def)
  from a have phi: "phi < shape1 r" by simp
  define r' where "r' = r\<lparr>elems := (\<lambda>idx.
      if idx \<in> chan_cells c u (shape4 r) event phi ring pol then event_val c u idx
      else elems r idx)\<rparr>"
  define h' where "h' = h\<lparr>fresh := fresh h + 2, live := live h - {fresh h..<fresh h + 2}\<rparr>"
  have body: "channel_body c u event phi ring pol (r, h) = Inr (r', h')"
    using channel_body_closed [OF ok phi, of c u ring pol]
    by (simp add: put_cells_def r'_def h'_def)
  have lv: "live h' = live h - {fresh h..<fresh h + 2}" and fr: "fresh h' = fresh h + 2"
    by (simp_all add: h'_def)
  from heap_ok_released [OF assms lv fr] have l: "live h' = live h" and okh: "heap_ok h'"
    by simp_all
  have "channel_body c u event phi ring pol (r, h) = Inr (r', h')
      \<and> fresh h' = fresh h + 2 \<and> live h' = live h \<and> heap_ok h'"
    by (intro conjI body fr l okh)
  then show "\<exists>r' h'. channel_body c u event phi ring pol (r, h) = Inr (r', h')
                 \<and> fresh h' = fresh h + 2 \<and> live h' = live h \<and> heap_ok h'"
    by - (rule exI, rule exI, assumption)
next
  assume "geometry_ok r"
  then show "\<exists>evno rd' r' h'.
               WaveformReader_next c rd r h = Inr (evno, rd', r', h')
               \<and> live h' = live h \<and> heap_ok h'"
    using assms by (rule next_heap)
next
  assume "\<forall>b \<in> set bufs. geometry_ok b"
  then show "\<exists>evnos rd' bufs' h'.
               next_calls c rd bufs h = Inr (evnos, rd', bufs', h')
               \<and> live h' = live h \<and> heap_ok h'"
    using assms
  proof (induction bufs arbitrary: rd h)
    case Nil
    then show ?case by simp
  next
    case (Cons b bufs)
    then have g: "geometry_ok b" and rest: "\<forall>b \<in> set bufs. geometry_ok b"
      by simp_all
    from next_heap [OF g Cons.prems(2), of c rd] obtain evno rd1 r1 h1 where
      nx: "WaveformReader_next c rd b h = Inr (evno, rd1, r1, h1)"
      and l1: "live h1 = live h" and ok1: "heap_ok h1"
      by (elim exE conjE)
    from Cons.IH [OF rest ok1, of rd1] obtain evnos rd2 bufs2 h2 where
      calls: "next_calls c rd1 bufs h1 = Inr (evnos, rd2, bufs2, h2)"
      and l2: "live h2 = live h1" and ok2: "heap_ok h2"
      by (elim exE conjE)
    have "next_calls c rd (b # bufs) h = Inr (evno # evnos, rd2, r1 # bufs2, h2)
          \<and> live h2 = live h \<and> heap_ok h2"
      using nx calls l1 l2 ok2 by simp
    then show ?case
      by - (rule exI, rule exI, rule exI, rule exI, assumption)
  qed
qed

theorem next_releases_temporaries_witness:
  "(\<exists>r' h'. channel_body synth 10 0 0 kTopRing kHorizontal (sentinel_buffer 3 1 2, empty_heap)
              = Inr (r', h') \<and> fresh h' = 2 \<and> live h' = {})
   \<and> (\<exists>evno rd' r' h'.
         WaveformReader_next synth (reader_at 1 two_runs) (sentinel_buffer 3 1 2) empty_heap
           = Inr (evno, rd', r', h') \<and> live h' = {})
   \<and> (\<exists>evnos rd' bufs' h'.
         next_calls synth (reader_at 1 two_runs) [sentinel_buffer 1 1 2, sentinel_buffer 3 1 2]
           empty_heap = Inr (evnos, rd', bufs', h') \<and> live h' = {})"
proof -
  have ok: "heap_ok empty_heap"
    by (simp add: heap_ok_def empty_heap_def)
  have e: "fresh empty_heap = 0" "live empty_heap = {}"
    by (simp_all add: empty_heap_def)
  have bufs: "\<forall>b \<in> set [sentinel_buffer 1 1 2, sentinel_buffer 3 1 2 :: int NumpyArray].
                geometry_ok b"
    by simp
  note all = next_releases_temporaries [OF ok, where c = synth and r = "sentinel_buffer 3 1 2"
      and rd = "reader_at 1 two_runs"
      and bufs = "[sentinel_buffer 1 1 2, sentinel_buffer 3 1 2]"]
  note chan = all [THEN conjunct1]
    and call = all [THEN conjunct2, THEN conjunct1]
    and calls = all [THEN conjunct2, THEN conjunct2]
  have "\<exists>r' h'. channel_body synth 10 0 0 kTopRing kHorizontal (sentinel_buffer 3 1 2, empty_heap)
              = Inr (r', h') \<and> fresh h' = 2 \<and> live h' = {}"
    using chan [rule_format, of 0 0 10 kTopRing kHorizontal] by (auto simp: e)
  moreover have "\<exists>evno rd' r' h'.
         WaveformReader_next synth (reader_at 1 two_runs) (sentinel_buffer 3 1 2) empty_heap
           = Inr (evno, rd', r', h') \<and> live h' = {}"
    using call by (auto simp: e)
  moreover have "\<exists>evnos rd' bufs' h'.
         next_calls synth (reader_at 1 two_runs) [sentinel_buffer 1 1 2, sentinel_buffer 3 1 2]
           empty_heap = Inr (evnos, rd', bufs', h') \<and> live h' = {}"
    using calls bufs by (auto simp: e)
  ultimately show ?thesis
    by (intro conjI)
qed

section \<open>The call on a buffer without event slots\<close>

text \<open>
  C10: on a buffer whose event-slot axis has size 0, \<open>next\<close> returns 0, the initial
  value of \<open>evno\<close> that no event header has overwritten, and leaves the buffer, the
  dataset cursor, the stored run and the heap as they were.
\<close>

theorem next_no_slots:
  assumes "shape0 r = 0"
  shows "WaveformReader_next c rd r h = Inr (0, rd, r, h)"
  using assms by (simp add: WaveformReader_next_def)

theorem next_no_slots_witness:
  "WaveformReader_next synth (reader_at 1 two_runs) (sentinel_buffer 0 1 2) empty_heap
   = Inr (0, reader_at 1 two_runs, sentinel_buffer 0 1 2, empty_heap)"
  by (rule next_no_slots) (simp add: sentinel_buffer_def)

end
